theory Spec2Isabelle
  imports Complex_Main "HOL-Library.Multiset"
begin

section \<open>Data model\<close>

text \<open>
  Times are JavaScript \<^verbatim>\<open>Date.now()\<close> values: integer milliseconds since the epoch.
  A nullable column or an optional property is an \<open>option\<close>; a 0/1 column is a \<open>bool\<close>.
  The cost counters and the proxy reference of a credential are left out: they are
  floating-point bookkeeping that none of the operations below reads.
  The store is taken to answer every statement: the \<^verbatim>\<open>catch\<close> branches that log a
  failed statement are not part of the model.
\<close>

type_synonym addr = nat

text \<open>The in-memory credential object built by \<^verbatim>\<open>loadTokens\<close>. The property
  \<^verbatim>\<open>_dbId\<close> is \<open>dbId\<close>; 0 also stands for a missing \<^verbatim>\<open>_dbId\<close> (both are falsy).\<close>

record token =
  access_token :: string
  refresh_token :: string
  expires_in :: "int option"
  timestamp :: "int option"
  enable :: bool
  disabledUntil :: "int option"
  quotaExhausted :: bool
  dbId :: int

text \<open>A row of table \<^verbatim>\<open>google_tokens\<close>.\<close>

record gt_row =
  row_id :: int
  user_id :: "string option"
  access_token_col :: string
  refresh_token_col :: string
  expires_in_col :: "int option"
  timestamp_col :: "int option"
  enabled :: bool
  disabled_until :: "int option"
  quota_exhausted :: bool
  is_shared :: bool
  daily_limit :: int
  usage_today :: int
  last_reset_date :: string

text \<open>A row of table \<^verbatim>\<open>users\<close> (the columns the sharing queries read).\<close>

record user_row =
  u_id :: string
  username :: string
  u_enabled :: bool

text \<open>The reasons a ban is issued with: the default argument of
  \<^verbatim>\<open>banUserFromSharing\<close>, the message \<^verbatim>\<open>checkAndBanAbuser\<close> builds from the average,
  or any other text.\<close>

datatype ban_reason = Abuse_of_shared_resources | Average_usage_too_high int | Other_reason string

text \<open>A row of table \<^verbatim>\<open>share_bans\<close>, whose primary key is the user id:
  columns \<^verbatim>\<open>ban_until, reason, created\<close>.\<close>

record ban_row =
  ban_until :: "int option"
  reason :: "ban_reason option"
  created :: int

text \<open>The database. \<^verbatim>\<open>share_usage\<close> holds (user id, timestamp) pairs and
  \<^verbatim>\<open>share_blacklist\<close> holds (owner id, token index, blocked user id) triples.\<close>

record db =
  google_tokens :: "gt_row list"
  users :: "user_row list"
  share_bans :: "string \<Rightarrow> ban_row option"
  share_usage :: "(string \<times> int) list"
  share_blacklist :: "(string \<times> int \<times> string) list"

text \<open>A thrown value: \<^verbatim>\<open>new Error(message)\<close> has no status code, the object thrown by
  \<^verbatim>\<open>refreshToken\<close> and the upstream errors carry one.\<close>

record error =
  statusCode :: "int option"
  message :: "string option"

text \<open>The answer of the OAuth token endpoint to a refresh request.\<close>

datatype response = Response_ok string "int option" | Response_fail int string

text \<open>The \<^verbatim>\<open>TokenManager\<close> singleton. Credential objects live in \<open>heap\<close> and
  \<^verbatim>\<open>this.tokens\<close> is a list of references into it, so that an object handed to a caller
  stays distinct from the objects of a later reload.\<close>

record manager =
  heap :: "addr \<Rightarrow> token"
  nextAddr :: addr
  tokens :: "addr list"
  lastLoadTime :: int
  currentTokenIndex :: nat
  usageStats :: "string \<Rightarrow> (nat \<times> int) option"
  store :: db

section \<open>The credential pool (token\_manager.js)\<close>

text \<open>
  Every operation takes the instant \<open>now\<close> at which it runs: all \<^verbatim>\<open>Date.now()\<close> reads of
  one call see the same value. The token endpoint is the parameter \<open>fetch\<close>: it answers
  a refresh request for a credential with a response, or fails.
\<close>

definition loadInterval :: int where
  "loadInterval = 60000"

text \<open>The object \<^verbatim>\<open>loadTokens\<close> builds from a row.\<close>

definition token_of_row :: "gt_row \<Rightarrow> token" where
  "token_of_row r =
     \<lparr>access_token = access_token_col r, refresh_token = refresh_token_col r,
      expires_in = expires_in_col r, timestamp = timestamp_col r,
      enable = enabled r, disabledUntil = disabled_until r,
      quotaExhausted = quota_exhausted r, dbId = row_id r\<rparr>"

text \<open>Fresh objects for a reload, stored from address \<open>n\<close> on.\<close>

definition alloc :: "(addr \<Rightarrow> token) \<Rightarrow> addr \<Rightarrow> token list \<Rightarrow> addr \<Rightarrow> token" where
  "alloc h n objs = (\<lambda>a. if n \<le> a \<and> a < n + length objs then objs ! (a - n) else h a)"

text \<open>\<^verbatim>\<open>SELECT * FROM google_tokens WHERE user_id IS NULL AND enabled = 1\<close>.\<close>

definition admin_rows :: "db \<Rightarrow> gt_row list" where
  "admin_rows d = filter (\<lambda>r. user_id r = None \<and> enabled r) (google_tokens d)"

definition loadTokens :: "bool \<Rightarrow> int \<Rightarrow> manager \<Rightarrow> manager" where
  "loadTokens force now s =
     (if \<not> force \<and> now - lastLoadTime s < loadInterval \<and> length (tokens s) > 0 then s
      else
        let objs = map token_of_row (admin_rows (store s)) in
        s\<lparr>heap := alloc (heap s) (nextAddr s) objs,
          nextAddr := nextAddr s + length objs,
          tokens := [nextAddr s ..< nextAddr s + length objs],
          lastLoadTime := now\<rparr>)"

definition isExpired :: "int \<Rightarrow> token \<Rightarrow> bool" where
  "isExpired now t =
     (case timestamp t of
        None \<Rightarrow> True
      | Some ts \<Rightarrow>
          (case expires_in t of
             None \<Rightarrow> True
           | Some e \<Rightarrow> if ts = 0 \<or> e = 0 then True else now \<ge> ts + e * 1000 - 30000))"

text \<open>The \<^verbatim>\<open>UPDATE google_tokens SET ... WHERE id = ?\<close> of \<^verbatim>\<open>saveToDatabase\<close>, on one row;
  \<^verbatim>\<open>token.disabledUntil || null\<close> stores a 0 as null.\<close>

definition save_row :: "token \<Rightarrow> gt_row \<Rightarrow> gt_row" where
  "save_row t r =
     (if row_id r = dbId t then
        r\<lparr>access_token_col := access_token t,
          expires_in_col := expires_in t,
          timestamp_col := timestamp t,
          disabled_until := (if disabledUntil t = Some 0 then None else disabledUntil t),
          quota_exhausted := quotaExhausted t,
          enabled := enable t\<rparr>
      else r)"

definition saveToDatabase :: "addr \<Rightarrow> manager \<Rightarrow> manager" where
  "saveToDatabase a s =
     (if dbId (heap s a) = 0 then s
      else s\<lparr>store := (store s)\<lparr>google_tokens :=
                 map (save_row (heap s a)) (google_tokens (store s))\<rparr>\<rparr>)"

definition refreshToken ::
  "(token \<Rightarrow> error + response) \<Rightarrow> int \<Rightarrow> addr \<Rightarrow> manager \<Rightarrow> error + manager" where
  "refreshToken fetch now a s =
     (case fetch (heap s a) of
        Inl e \<Rightarrow> Inl e
      | Inr (Response_fail st txt) \<Rightarrow> Inl \<lparr>statusCode = Some st, message = Some txt\<rparr>
      | Inr (Response_ok acc ei) \<Rightarrow>
          Inr (saveToDatabase a
                 (s\<lparr>heap := (heap s)(a := (heap s a)
                        \<lparr>access_token := acc, expires_in := ei, timestamp := Some now\<rparr>)\<rparr>)))"

definition isTokenDisabledByQuota :: "int \<Rightarrow> token \<Rightarrow> bool" where
  "isTokenDisabledByQuota now t =
     (case disabledUntil t of None \<Rightarrow> False | Some u \<Rightarrow> u \<noteq> 0 \<and> now < u)"

definition disableTokenUntil :: "addr \<Rightarrow> int \<Rightarrow> manager \<Rightarrow> manager" where
  "disableTokenUntil a resetTime s =
     saveToDatabase a
       (s\<lparr>heap := (heap s)(a := (heap s a)
              \<lparr>disabledUntil := Some resetTime, quotaExhausted := True\<rparr>)\<rparr>)"

definition disableToken :: "int \<Rightarrow> addr \<Rightarrow> manager \<Rightarrow> manager" where
  "disableToken now a s =
     loadTokens True now
       (saveToDatabase a
          (s\<lparr>heap := (heap s)(a := (heap s a)
                 \<lparr>enable := False, disabledUntil := None, quotaExhausted := False\<rparr>)\<rparr>))"




definition recordUsage :: "int \<Rightarrow> addr \<Rightarrow> manager \<Rightarrow> manager" where
  "recordUsage now a s =
     (let key = refresh_token (heap s a);
          requests = (case usageStats s key of None \<Rightarrow> 0 | Some (n, _) \<Rightarrow> n)
      in s\<lparr>usageStats := (usageStats s)(key \<mapsto> (requests + 1, now))\<rparr>)"

text \<open>The filter of \<^verbatim>\<open>getNextToken\<close> and \<^verbatim>\<open>getAnyEnabledToken\<close>.\<close>

definition eligible :: "int \<Rightarrow> token \<Rightarrow> bool" where
  "eligible now t = (enable t \<and> \<not> isTokenDisabledByQuota now t)"

definition availableTokens :: "int \<Rightarrow> manager \<Rightarrow> addr list" where
  "availableTokens now s = filter (\<lambda>a. eligible now (heap s a)) (tokens s)"

definition NoTokensAvailable :: error where
  "NoTokensAvailable = \<lparr>statusCode = None, message = Some ''No tokens available.''\<rparr>"

definition NoEnabledTokensAvailable :: error where
  "NoEnabledTokensAvailable = \<lparr>statusCode = None, message = Some ''No enabled tokens available.''\<rparr>"

text \<open>The cursor step: incremented, and reset to 0 once it exceeds 10000.\<close>

definition advance :: "nat \<Rightarrow> nat" where
  "advance c = (if c + 1 > 10000 then 0 else c + 1)"

definition getNextToken ::
  "(token \<Rightarrow> error + response) \<Rightarrow> int \<Rightarrow> manager \<Rightarrow> (error + addr) \<times> manager" where
  "getNextToken fetch now s =
     (let s1 = loadTokens False now s in
      if length (tokens s1) = 0 then (Inl NoTokensAvailable, s1)
      else
        let avail = availableTokens now s1 in
        if length avail = 0 then (Inl NoEnabledTokensAvailable, s1)
        else
          let a = avail ! (currentTokenIndex s1 mod length avail);
              s2 = s1\<lparr>currentTokenIndex := advance (currentTokenIndex s1)\<rparr>
          in if isExpired now (heap s2 a)
             then (case refreshToken fetch now a s2 of
                     Inl e \<Rightarrow> (Inl e, s2)
                   | Inr s3 \<Rightarrow> (Inr a, recordUsage now a s3))
             else (Inr a, recordUsage now a s2))"


text \<open>\<^verbatim>\<open>String.prototype.includes\<close>.\<close>

fun includes_str :: "string \<Rightarrow> string \<Rightarrow> bool" where
  "includes_str [] sub = (sub = [])"
| "includes_str (c # cs) sub = (take (length sub) (c # cs) = sub \<or> includes_str cs sub)"

text \<open>The largest time value of a JavaScript \<^verbatim>\<open>Date\<close>; beyond it a date is invalid and
  its \<^verbatim>\<open>getTime()\<close> is NaN.\<close>

definition max_time :: int where
  "max_time = 8640000000000000"

text \<open>The instant computed by \<^verbatim>\<open>setUTCDate(getUTCDate() + 1)\<close> and
  \<^verbatim>\<open>setUTCHours(0, 0, 0, 0)\<close> on the current date: the next UTC midnight, or \<open>None\<close>
  for NaN when one of the two steps leaves the range of valid dates.\<close>

definition nextUtcMidnight :: "int \<Rightarrow> int option" where
  "nextUtcMidnight now =
     (let t1 = now + 86400000 in
      if \<bar>t1\<bar> > max_time then None
      else
        let t2 = t1 div 86400000 * 86400000 in
        if \<bar>t2\<bar> > max_time then None else Some t2)"

text \<open>\<^verbatim>\<open>error.statusCode === 429 || (error.message && error.message.includes('quota'))\<close>.\<close>

definition quota_error :: "error \<Rightarrow> bool" where
  "quota_error e =
     (statusCode e = Some 429 \<or>
      (case message e of None \<Rightarrow> False | Some m \<Rightarrow> m \<noteq> [] \<and> includes_str m ''quota''))"

text \<open>
  \<open>now\<close> is the instant at which the error is classified and the credential changed,
  \<open>now2\<close> the later instant at which the nested \<^verbatim>\<open>getNextToken\<close> reads the clock. A NaN
  reset time is a falsy number: it is never in the future for \<^verbatim>\<open>isTokenDisabledByQuota\<close>
  and is stored as null, exactly as 0 is, so it is passed on as 0.
\<close>

definition handleRequestError ::
  "(token \<Rightarrow> error + response) \<Rightarrow> int \<Rightarrow> int \<Rightarrow> error \<Rightarrow> addr \<Rightarrow> manager
     \<Rightarrow> (error + addr) \<times> manager" where
  "handleRequestError fetch now now2 e a s =
     (if quota_error e
      then getNextToken fetch now2
             (disableTokenUntil a (case nextUtcMidnight now of None \<Rightarrow> 0 | Some m \<Rightarrow> m) s)
      else if statusCode e = Some 403 then getNextToken fetch now2 (disableToken now a s)
      else if statusCode e = Some 400 then getNextToken fetch now2 (disableToken now a s)
      else (Inl e, s))"

text \<open>Consecutive calls of \<^verbatim>\<open>getNextToken\<close>, one at each of the given times. A call
  that returns gives the reference it returned together with the object the caller
  finds there.\<close>

fun getNextTokens ::
  "(token \<Rightarrow> error + response) \<Rightarrow> int list \<Rightarrow> manager
     \<Rightarrow> (error + addr \<times> token) list \<times> manager" where
  "getNextTokens fetch [] s = ([], s)"
| "getNextTokens fetch (now # ts) s =
     (let (r, s1) = getNextToken fetch now s;
          (rs, s2) = getNextTokens fetch ts s1
      in (map_sum id (\<lambda>a. (a, heap s1 a)) r # rs, s2))"

text \<open>The spec's \<open>PoolExhausted\<close>: the two errors \<^verbatim>\<open>getNextToken\<close> throws when it has
  no credential to hand out.\<close>

definition PoolExhausted :: "error \<Rightarrow> bool" where
  "PoolExhausted e = (e = NoTokensAvailable \<or> e = NoEnabledTokensAvailable)"

section \<open>Abuse guard and blacklists (share\_manager.js)\<close>

text \<open>
  The local calendar of the server: \<open>toDateString t\<close> is
  \<^verbatim>\<open>new Date(t).toDateString()\<close> and \<open>dayStart t\<close> is the instant
  \<^verbatim>\<open>new Date(new Date(t).toDateString()).getTime()\<close>. Both depend on the time zone of the
  process, so they are parameters.
\<close>

record tz =
  toDateString :: "int \<Rightarrow> string"
  dayStart :: "int \<Rightarrow> int"

definition day_ms :: int where
  "day_ms = 24 * 60 * 60 * 1000"

definition BAN_DURATIONS :: "int list" where
  "BAN_DURATIONS = [1 * day_ms, 3 * day_ms, 7 * day_ms, 14 * day_ms, 30 * day_ms, 90 * day_ms]"

definition USAGE_THRESHOLD :: int where
  "USAGE_THRESHOLD = 50"

text \<open>\<^verbatim>\<open>Math.round(a / b)\<close> for integers \<open>a\<close> and \<open>b > 0\<close>: the nearest integer, halves
  rounded up. The quotients formed here are far inside the range where the double
  division is exact enough for the rounding to agree with this.\<close>

definition Math_round_div :: "int \<Rightarrow> int \<Rightarrow> int" where
  "Math_round_div a b = (2 * a + b) div (2 * b)"

datatype ban_status = Not_banned | Banned "int option" int "ban_reason option" int

text \<open>\<^verbatim>\<open>Banned banUntil banCount reason remainingTime\<close>; a missing \<^verbatim>\<open>ban_until\<close> counts
  as 0 in the subtraction, as \<^verbatim>\<open>null\<close> does.\<close>

definition isUserBanned :: "int \<Rightarrow> string \<Rightarrow> db \<Rightarrow> ban_status \<times> db" where
  "isUserBanned now userId d =
     (case share_bans d userId of
        None \<Rightarrow> (Not_banned, d)
      | Some ban \<Rightarrow>
          if (case ban_until ban of None \<Rightarrow> False | Some u \<Rightarrow> u \<noteq> 0 \<and> now > u)
          then (Not_banned, d\<lparr>share_bans := (share_bans d)(userId := None)\<rparr>)
          else (Banned (ban_until ban) 1 (reason ban)
                  ((case ban_until ban of None \<Rightarrow> 0 | Some u \<Rightarrow> u) - now), d))"

record ban_result =
  banCount :: int
  banUntil :: int
  durationDays :: int

text \<open>The property \<^verbatim>\<open>banCount\<close> of a row object selected from \<^verbatim>\<open>share_bans\<close>: the
  table has the columns \<^verbatim>\<open>user_id, ban_until, reason, created\<close> and no other, so the
  property is always undefined.\<close>

definition row_banCount :: "ban_row \<Rightarrow> int option" where
  "row_banCount ban = None"

definition banUserFromSharing :: "int \<Rightarrow> string \<Rightarrow> ban_reason \<Rightarrow> db \<Rightarrow> ban_result \<times> db" where
  "banUserFromSharing now userId rsn d =
     (let existing = share_bans d userId;
          cnt = (case existing of
                     None \<Rightarrow> 1
                   | Some ex \<Rightarrow> (case row_banCount ex of None \<Rightarrow> 0 | Some n \<Rightarrow> n) + 1);
          durationIndex = min (cnt - 1) (int (length BAN_DURATIONS) - 1);
          duration = BAN_DURATIONS ! nat durationIndex;
          until = now + duration;
          d' = d\<lparr>share_bans := (share_bans d)(userId \<mapsto>
                   \<lparr>ban_until = Some until, reason = Some rsn, created = now\<rparr>)\<rparr>
      in (\<lparr>banCount = cnt, banUntil = until,
           durationDays = Math_round_div duration day_ms\<rparr>, d'))"

definition recordShareUsage :: "tz \<Rightarrow> int \<Rightarrow> string \<Rightarrow> db \<Rightarrow> nat \<times> db" where
  "recordShareUsage z now userId d =
     (let inserted = (if (userId, now) \<in> set (share_usage d) then share_usage d
                      else share_usage d @ [(userId, now)]);
          thirtyDaysAgo = now - 30 * day_ms;
          cleaned = filter (\<lambda>(u, ts). \<not> ts < thirtyDaysAgo) inserted;
          todayStart = dayStart z now;
          todayEnd = todayStart + day_ms;
          cnt = length (filter (\<lambda>(u, ts). u = userId \<and> ts \<ge> todayStart \<and> ts < todayEnd) cleaned)
      in (cnt, d\<lparr>share_usage := cleaned\<rparr>))"

text \<open>\<^verbatim>\<open>dailyUsage[date] = (dailyUsage[date] || 0) + 1\<close> on an object kept as an
  association list in insertion order.\<close>

fun bump :: "string \<Rightarrow> (string \<times> int) list \<Rightarrow> (string \<times> int) list" where
  "bump k [] = [(k, 1)]"
| "bump k ((k', n) # kvs) = (if k = k' then (k', n + 1) # kvs else (k', n) # bump k kvs)"

definition getUserAverageUsage :: "tz \<Rightarrow> string \<Rightarrow> db \<Rightarrow> int" where
  "getUserAverageUsage z userId d =
     (let records = map snd (filter (\<lambda>(u, ts). u = userId) (share_usage d))
      in if length records = 0 then 0
         else
           let dailyUsage = fold (\<lambda>ts acc. bump (toDateString z ts) acc) records [];
               days = map fst dailyUsage
           in if length days = 0 then 0
              else Math_round_div (sum_list (map snd dailyUsage)) (int (length days)))"

datatype check_result = Check_banned int ban_result | Check_clear int

definition checkAndBanAbuser :: "tz \<Rightarrow> int \<Rightarrow> string \<Rightarrow> db \<Rightarrow> check_result \<times> db" where
  "checkAndBanAbuser z now userId d =
     (let avgUsage = getUserAverageUsage z userId d
      in if avgUsage > USAGE_THRESHOLD
         then (let (res, d') = banUserFromSharing now userId (Average_usage_too_high avgUsage) d
               in (Check_banned avgUsage res, d'))
         else (Check_clear avgUsage, d))"

definition isUserBlacklisted :: "db \<Rightarrow> string \<Rightarrow> int \<Rightarrow> string \<Rightarrow> bool" where
  "isUserBlacklisted d ownerId tokenIndex userId =
     ((ownerId, tokenIndex, userId) \<in> set (share_blacklist d))"

section \<open>Sharing broker (user\_manager.js)\<close>

text \<open>\<^verbatim>\<open>Array.prototype.findIndex\<close>: the first index whose element satisfies the
  predicate, or -1.\<close>

fun findIndex :: "('a \<Rightarrow> bool) \<Rightarrow> 'a list \<Rightarrow> int" where
  "findIndex P [] = - 1"
| "findIndex P (x # xs) =
     (if P x then 0 else (let i = findIndex P xs in if i < 0 then - 1 else i + 1))"

text \<open>\<^verbatim>\<open>SELECT id FROM google_tokens WHERE user_id = ? ORDER BY id\<close>.\<close>

definition user_token_ids :: "db \<Rightarrow> string \<Rightarrow> int list" where
  "user_token_ids d uid =
     sort (map row_id (filter (\<lambda>r. user_id r = Some uid) (google_tokens d)))"

datatype um_error = User_not_found | Token_not_found | Type_error

definition set_sharing :: "int \<Rightarrow> bool option \<Rightarrow> int option \<Rightarrow> gt_row \<Rightarrow> gt_row" where
  "set_sharing tokenId isShared dailyLimit r =
     (if row_id r = tokenId then
        (let r1 = (case isShared of None \<Rightarrow> r | Some b \<Rightarrow> r\<lparr>is_shared := b\<rparr>)
         in case dailyLimit of
              None \<Rightarrow> r1
            | Some l \<Rightarrow> r1\<lparr>daily_limit := max 1 (min 10000 l)\<rparr>)
      else r)"

text \<open>The settings object is passed as its two optional properties; \<open>dailyLimit\<close> is the
  value after \<^verbatim>\<open>parseInt\<close>.\<close>

definition updateTokenSharing ::
  "string \<Rightarrow> int \<Rightarrow> bool option \<Rightarrow> int option \<Rightarrow> db \<Rightarrow> um_error + ((bool \<times> int) \<times> db)" where
  "updateTokenSharing userId tokenIndex isShared dailyLimit d =
     (case find (\<lambda>u. u_id u = userId) (users d) of
        None \<Rightarrow> Inl User_not_found
      | Some user \<Rightarrow>
          let ids = user_token_ids d userId in
          if tokenIndex < 0 \<or> tokenIndex \<ge> int (length ids) then Inl Token_not_found
          else
            let tokenId = ids ! nat tokenIndex;
                d' = d\<lparr>google_tokens :=
                        map (set_sharing tokenId isShared dailyLimit) (google_tokens d)\<rparr>
            in case find (\<lambda>r. row_id r = tokenId) (google_tokens d') of
                 None \<Rightarrow> Inl Type_error
               | Some token \<Rightarrow> Inr ((is_shared token, daily_limit token), d'))"

text \<open>The join of \<^verbatim>\<open>getAllSharedTokens\<close> and \<^verbatim>\<open>getRandomSharedToken\<close>: shared, enabled
  credentials of enabled users, each with its owner.\<close>

definition shared_rows :: "db \<Rightarrow> (gt_row \<times> user_row) list" where
  "shared_rows d =
     concat (map (\<lambda>r. map (\<lambda>u. (r, u))
                         (filter (\<lambda>u. user_id r = Some (u_id u) \<and> is_shared r \<and> enabled r
                                       \<and> u_enabled u) (users d)))
                 (google_tokens d))"

text \<open>\<^verbatim>\<open>UPDATE google_tokens SET usage_today = 0, last_reset_date = ? WHERE id = ?\<close>.\<close>

definition reset_usage :: "string \<Rightarrow> int \<Rightarrow> gt_row \<Rightarrow> gt_row" where
  "reset_usage today tid r =
     (if row_id r = tid then r\<lparr>usage_today := 0, last_reset_date := today\<rparr> else r)"

text \<open>The lazy daily reset applied to the loop's copy of a row.\<close>

definition fresh_copy :: "string \<Rightarrow> gt_row \<Rightarrow> gt_row" where
  "fresh_copy today token =
     (if last_reset_date token \<noteq> today
      then token\<lparr>usage_today := 0, last_reset_date := today\<rparr> else token)"

definition reset_in_db :: "string \<Rightarrow> gt_row \<Rightarrow> db \<Rightarrow> db" where
  "reset_in_db today token d =
     (if last_reset_date token \<noteq> today
      then d\<lparr>google_tokens := map (reset_usage today (row_id token)) (google_tokens d)\<rparr>
      else d)"

definition tokenIndexOf :: "db \<Rightarrow> gt_row \<Rightarrow> user_row \<Rightarrow> int" where
  "tokenIndexOf d token u = findIndex (\<lambda>i. i = row_id token) (user_token_ids d (u_id u))"

record shared_summary =
  userId :: string
  tokenIndex :: int
  dailyLimit :: int
  usageToday :: int
  remainingToday :: int

fun shared_loop :: "string \<Rightarrow> (gt_row \<times> user_row) list \<Rightarrow> db \<Rightarrow> shared_summary list \<times> db" where
  "shared_loop today [] d = ([], d)"
| "shared_loop today ((token, u) # rest) d =
     (let d1 = reset_in_db today token d;
          token1 = fresh_copy today token;
          summary = \<lparr>userId = u_id u, tokenIndex = tokenIndexOf d1 token1 u,
                     dailyLimit = daily_limit token1, usageToday = usage_today token1,
                     remainingToday = daily_limit token1 - usage_today token1\<rparr>;
          (summaries, d2) = shared_loop today rest d1
      in (summary # summaries, d2))"

definition getAllSharedTokens :: "tz \<Rightarrow> int \<Rightarrow> db \<Rightarrow> shared_summary list \<times> db" where
  "getAllSharedTokens z now d = shared_loop (toDateString z now) (shared_rows d) d"

text \<open>A caller id that passes \<^verbatim>\<open>if (callerId)\<close>: neither null nor the empty string.\<close>

definition truthy :: "string option \<Rightarrow> string option" where
  "truthy callerId = (case callerId of None \<Rightarrow> None | Some c \<Rightarrow> if c = [] then None else Some c)"

fun available_loop ::
  "string option \<Rightarrow> string \<Rightarrow> (gt_row \<times> user_row) list \<Rightarrow> db \<Rightarrow> gt_row list \<times> db" where
  "available_loop caller today [] d = ([], d)"
| "available_loop caller today ((token, u) # rest) d =
     (if (case caller of
            None \<Rightarrow> False
          | Some c \<Rightarrow> isUserBlacklisted d (u_id u) (tokenIndexOf d token u) c)
      then available_loop caller today rest d
      else
        let d1 = reset_in_db today token d;
            token1 = fresh_copy today token;
            (available, d2) = available_loop caller today rest d1
        in (if usage_today token1 < daily_limit token1 then token1 # available else available, d2))"

text \<open>The result carries the selected row (after its counter was incremented), of which
  the returned object is a projection. \<open>rnd\<close> is the value of \<^verbatim>\<open>Math.random()\<close>, in
  \<open>[0, 1)\<close>. The abuse check is started without being awaited; its effect on the store
  is part of the state after the call.\<close>

datatype shared_result = Shared_banned "int option" int "ban_reason option" | No_shared_token
  | Shared_token gt_row

definition use_row :: "int \<Rightarrow> gt_row \<Rightarrow> gt_row" where
  "use_row tid r = (if row_id r = tid then r\<lparr>usage_today := usage_today r + 1\<rparr> else r)"

definition getRandomSharedToken ::
  "tz \<Rightarrow> int \<Rightarrow> real \<Rightarrow> string option \<Rightarrow> db \<Rightarrow> shared_result \<times> db" where
  "getRandomSharedToken z now rnd callerId d =
     (let (banStatus, d0) = (case truthy callerId of
                               None \<Rightarrow> (Not_banned, d)
                             | Some c \<Rightarrow> isUserBanned now c d)
      in case banStatus of
           Banned until cnt rsn remaining \<Rightarrow> (Shared_banned until remaining rsn, d0)
         | Not_banned \<Rightarrow>
             let (available, d1) =
                   available_loop (truthy callerId) (toDateString z now) (shared_rows d0) d0
             in if length available = 0 then (No_shared_token, d1)
                else
                  let randomIndex = nat \<lfloor>rnd * real (length available)\<rfloor>;
                      selected = available ! randomIndex;
                      d2 = d1\<lparr>google_tokens := map (use_row (row_id selected)) (google_tokens d1)\<rparr>;
                      selected1 = selected\<lparr>usage_today := usage_today selected + 1\<rparr>;
                      d3 = (case truthy callerId of
                              None \<Rightarrow> d2
                            | Some c \<Rightarrow>
                                snd (checkAndBanAbuser z now c (snd (recordShareUsage z now c d2))))
                  in (Shared_token selected1, d3))"

section \<open>Auxiliary predicates\<close>

text \<open>Two states agree on the health fields of every credential object.\<close>

definition same_health :: "manager \<Rightarrow> manager \<Rightarrow> bool" where
  "same_health s s' =
     (\<forall>a. enable (heap s' a) = enable (heap s a)
          \<and> disabledUntil (heap s' a) = disabledUntil (heap s a)
          \<and> quotaExhausted (heap s' a) = quotaExhausted (heap s a)
          \<and> dbId (heap s' a) = dbId (heap s a))"

text \<open>The objects allocated in the first state keep their health fields in the second.\<close>

definition old_health :: "manager \<Rightarrow> manager \<Rightarrow> bool" where
  "old_health s s' =
     (nextAddr s \<le> nextAddr s' \<and>
      (\<forall>a. a < nextAddr s \<longrightarrow>
         enable (heap s' a) = enable (heap s a)
         \<and> disabledUntil (heap s' a) = disabledUntil (heap s a)
         \<and> quotaExhausted (heap s' a) = quotaExhausted (heap s a)
         \<and> dbId (heap s' a) = dbId (heap s a)))"

text \<open>The cached set and the store agree: the cached objects are those of the store's
  enabled admin rows, in the same order; row ids are unique (the primary key); and the
  rows would load as eligible credentials at each of the given instants.\<close>

definition in_sync :: "int list \<Rightarrow> manager \<Rightarrow> bool" where
  "in_sync ts s =
     (map (\<lambda>a. dbId (heap s a)) (tokens s) = map row_id (admin_rows (store s))
      \<and> distinct (map row_id (google_tokens (store s)))
      \<and> list_all (\<lambda>now. list_all (\<lambda>r. eligible now (token_of_row r)) (admin_rows (store s))) ts)"

text \<open>The retained samples of a borrower, the calendar days they fall on, and whether an
  abuse check ended in a ban.\<close>

definition samples_of :: "db \<Rightarrow> string \<Rightarrow> int list" where
  "samples_of d uid = map snd (filter (\<lambda>(u, ts). u = uid) (share_usage d))"

definition sample_days :: "tz \<Rightarrow> db \<Rightarrow> string \<Rightarrow> string set" where
  "sample_days z d uid = toDateString z ` set (samples_of d uid)"

fun is_banned :: "check_result \<Rightarrow> bool" where
  "is_banned (Check_banned a r) = True"
| "is_banned (Check_clear a) = False"


text \<open>Notions used to describe the two selection loops: the identifying columns of the
  credential rows, the daily reset applied to a set of row ids, the blacklist test of the
  selection loop, the ids of the snapshot rows whose reset date is stale, and the summary
  that \<^verbatim>\<open>getAllSharedTokens\<close> builds for one joined row.\<close>

definition row_keys :: "db \<Rightarrow> (int \<times> string option) list" where
  "row_keys d = map (\<lambda>r. (row_id r, user_id r)) (google_tokens d)"

definition reset_set :: "string \<Rightarrow> int set \<Rightarrow> gt_row \<Rightarrow> gt_row" where
  "reset_set today R r =
     (if row_id r \<in> R then r\<lparr>usage_today := 0, last_reset_date := today\<rparr> else r)"

definition passes :: "string option \<Rightarrow> db \<Rightarrow> gt_row \<times> user_row \<Rightarrow> bool" where
  "passes caller d p =
     (case caller of
        None \<Rightarrow> True
      | Some c \<Rightarrow> \<not> isUserBlacklisted d (u_id (snd p)) (tokenIndexOf d (fst p) (snd p)) c)"

definition stale_ids :: "string \<Rightarrow> gt_row list \<Rightarrow> int set" where
  "stale_ids today toks = row_id ` set (filter (\<lambda>t. last_reset_date t \<noteq> today) toks)"

definition summary_of :: "string \<Rightarrow> db \<Rightarrow> gt_row \<times> user_row \<Rightarrow> shared_summary" where
  "summary_of today d p =
     \<lparr>userId = u_id (snd p), tokenIndex = tokenIndexOf d (fst p) (snd p),
      dailyLimit = daily_limit (fst p),
      usageToday = usage_today (fresh_copy today (fst p)),
      remainingToday = daily_limit (fst p) - usage_today (fresh_copy today (fst p))\<rparr>"

section \<open>Example states\<close>

definition example_token :: token where
  "example_token =
     \<lparr>access_token = ''at'', refresh_token = ''rt'', expires_in = Some 3600,
      timestamp = Some 1000000, enable = True, disabledUntil = None,
      quotaExhausted = False, dbId = 1\<rparr>"

definition example_row :: gt_row where
  "example_row =
     \<lparr>row_id = 1, user_id = None, access_token_col = ''at'', refresh_token_col = ''rt'',
      expires_in_col = Some 3600, timestamp_col = Some 1000000, enabled = True,
      disabled_until = None, quota_exhausted = False, is_shared = False,
      daily_limit = 100, usage_today = 0, last_reset_date = ''Thu Jan 01 1970''\<rparr>"

definition empty_db :: db where
  "empty_db =
     \<lparr>google_tokens = [], users = [], share_bans = (\<lambda>u. None), share_usage = [],
      share_blacklist = []\<rparr>"

definition never_fetch :: "token \<Rightarrow> error + response" where
  "never_fetch t = Inl \<lparr>statusCode = None, message = Some ''fetch failed''\<rparr>"

definition always_fetch :: "token \<Rightarrow> error + response" where
  "always_fetch t = Inr (Response_ok ''fresh'' (Some 3600))"

definition error_429 :: error where
  "error_429 = \<lparr>statusCode = Some 429, message = Some ''Too Many Requests''\<rparr>"

text \<open>A pool of two credentials loaded at time 1000000, with the cursor at \<open>c\<close>.\<close>

definition pool2 :: "nat \<Rightarrow> manager" where
  "pool2 c =
     \<lparr>heap = (\<lambda>a. if a = 0 then example_token
                   else example_token\<lparr>refresh_token := ''rt2'', dbId := 2\<rparr>),
      nextAddr = 2, tokens = [0, 1], lastLoadTime = 1000000, currentTokenIndex = c,
      usageStats = (\<lambda>k. None),
      store = empty_db\<lparr>google_tokens :=
                [example_row, example_row\<lparr>row_id := 2, refresh_token_col := ''rt2''\<rparr>]\<rparr>\<rparr>"

text \<open>A pool of one credential.\<close>

definition pool1 :: manager where
  "pool1 =
     \<lparr>heap = (\<lambda>a. example_token), nextAddr = 1, tokens = [0], lastLoadTime = 1000000,
      currentTokenIndex = 0, usageStats = (\<lambda>k. None),
      store = empty_db\<lparr>google_tokens := [example_row]\<rparr>\<rparr>"

text \<open>A pool whose only credential is quarantined until time 5000000.\<close>

definition pool_quarantined :: manager where
  "pool_quarantined =
     \<lparr>heap = (\<lambda>a. example_token\<lparr>disabledUntil := Some 5000000, quotaExhausted := True\<rparr>),
      nextAddr = 1, tokens = [0], lastLoadTime = 1000000,
      currentTokenIndex = 0, usageStats = (\<lambda>k. None),
      store = empty_db\<lparr>google_tokens :=
                [example_row\<lparr>disabled_until := Some 5000000, quota_exhausted := True\<rparr>]\<rparr>\<rparr>"

definition example_tz :: tz where
  "example_tz =
     \<lparr>toDateString = (\<lambda>t. if t < 86400000 then ''Thu Jan 01 1970''
                           else if t < 172800000 then ''Fri Jan 02 1970''
                           else ''Sat Jan 03 1970''),
      dayStart = (\<lambda>t. t div 86400000 * 86400000)\<rparr>"

definition ban_db :: db where
  "ban_db = empty_db\<lparr>share_bans :=
      (\<lambda>u. if u = ''user_b''
            then Some \<lparr>ban_until = Some 2000000, reason = Some Abuse_of_shared_resources,
                       created = 1000000\<rparr>
            else None)\<rparr>"

definition old_usage_db :: db where
  "old_usage_db = empty_db\<lparr>share_usage := [(''user_other'', 0)]\<rparr>"

text \<open>151 samples of one borrower on three days: 51, 51 and 49.\<close>

definition heavy_usage_db :: db where
  "heavy_usage_db = empty_db\<lparr>share_usage :=
      map (\<lambda>i. (''user_b'', int i)) [0 ..< 51]
      @ map (\<lambda>i. (''user_b'', 86400000 + int i)) [0 ..< 51]
      @ map (\<lambda>i. (''user_b'', 172800000 + int i)) [0 ..< 49]\<rparr>"

definition light_usage_db :: db where
  "light_usage_db = empty_db\<lparr>share_usage := [(''user_b'', 5), (''user_b'', 86400005), (''user_a'', 7)]\<rparr>"

definition owner_row :: user_row where
  "owner_row = \<lparr>u_id = ''user_a'', username = ''alice'', u_enabled = True\<rparr>"

definition shared_row :: gt_row where
  "shared_row = example_row\<lparr>row_id := 7, user_id := Some ''user_a'', is_shared := True,
                             daily_limit := 20\<rparr>"

definition share_db :: db where
  "share_db = empty_db\<lparr>google_tokens := [shared_row], users := [owner_row]\<rparr>"

definition blacklist_db :: db where
  "blacklist_db = share_db\<lparr>share_blacklist := [(''user_a'', 0, ''user_b'')]\<rparr>"

definition unshared_db :: db where
  "unshared_db = empty_db\<lparr>google_tokens := [shared_row\<lparr>is_shared := False, daily_limit := 100\<rparr>],
                           users := [owner_row]\<rparr>"

definition disabled_db :: db where
  "disabled_db = empty_db\<lparr>google_tokens := [shared_row\<lparr>enabled := False, is_shared := False\<rparr>],
                           users := [owner_row]\<rparr>"

definition disabled_shared_db :: db where
  "disabled_shared_db = empty_db\<lparr>google_tokens := [shared_row\<lparr>enabled := False\<rparr>],
                                  users := [owner_row]\<rparr>"

section \<open>Properties of the credential pool\<close>

lemma loadTokens_cached:
  "now - lastLoadTime s < loadInterval \<Longrightarrow> tokens s \<noteq> [] \<Longrightarrow> loadTokens False now s = s"
  by (simp add: loadTokens_def)

lemma same_health_refl: "same_health s s"
  by (simp add: same_health_def)

lemma same_health_saveToDatabase: "same_health s (saveToDatabase a s)"
  by (simp add: same_health_def saveToDatabase_def)

lemma same_health_recordUsage: "same_health s (recordUsage now a s)"
  by (simp add: same_health_def recordUsage_def Let_def split: option.splits prod.splits)

lemma same_health_trans: "same_health s s1 \<Longrightarrow> same_health s1 s2 \<Longrightarrow> same_health s s2"
  by (simp add: same_health_def)

lemma same_health_eligible: "same_health s s' \<Longrightarrow> eligible now (heap s' a) = eligible now (heap s a)"
  by (simp add: same_health_def eligible_def isTokenDisabledByQuota_def)

lemma refreshToken_frame:
  assumes "refreshToken fetch now a s = Inr s'"
  shows "same_health s s' \<and> tokens s' = tokens s \<and> lastLoadTime s' = lastLoadTime s
         \<and> currentTokenIndex s' = currentTokenIndex s \<and> nextAddr s' = nextAddr s"
  using assms
  by (auto simp: refreshToken_def same_health_def saveToDatabase_def
      split: sum.splits response.splits if_splits)

lemma recordUsage_frame:
  "tokens (recordUsage now a s) = tokens s \<and> lastLoadTime (recordUsage now a s) = lastLoadTime s
   \<and> currentTokenIndex (recordUsage now a s) = currentTokenIndex s
   \<and> nextAddr (recordUsage now a s) = nextAddr s \<and> heap (recordUsage now a s) = heap s
   \<and> store (recordUsage now a s) = store s"
  by (simp add: recordUsage_def Let_def split: option.splits prod.splits)

text \<open>
  C2. When the eligible set that \<^verbatim>\<open>getNextToken\<close> computes (the enabled, not
  quarantined credentials of the set it has after its load step) is empty, the call fails
  with one of the two pool-exhausted errors, leaves the cursor where it was, and changes
  nothing beyond the load step: the modulo selection is not reached.
\<close>

theorem getNextToken_pool_exhausted:
  assumes "availableTokens now (loadTokens False now s) = []"
  shows "\<exists>e. getNextToken fetch now s = (Inl e, loadTokens False now s) \<and> PoolExhausted e
           \<and> currentTokenIndex (snd (getNextToken fetch now s)) = currentTokenIndex s"
proof -
  have c: "currentTokenIndex (loadTokens False now s) = currentTokenIndex s"
    by (simp add: loadTokens_def Let_def)
  show ?thesis
    using assms c by (simp add: getNextToken_def Let_def PoolExhausted_def)
qed

theorem getNextToken_pool_exhausted_witness:
  "availableTokens 1000001 (loadTokens False 1000001 pool_quarantined) = []
   \<and> getNextToken never_fetch 1000001 pool_quarantined = (Inl NoEnabledTokensAvailable, pool_quarantined)"
proof -
  have l: "loadTokens False 1000001 pool_quarantined = pool_quarantined"
    by (rule loadTokens_cached) (simp_all add: pool_quarantined_def loadInterval_def)
  have h: "availableTokens 1000001 (loadTokens False 1000001 pool_quarantined) = []"
    unfolding l
    by (simp add: availableTokens_def eligible_def isTokenDisabledByQuota_def
        pool_quarantined_def example_token_def)
  from getNextToken_pool_exhausted [OF h, of never_fetch]
  obtain e where e: "getNextToken never_fetch 1000001 pool_quarantined
      = (Inl e, loadTokens False 1000001 pool_quarantined)" "PoolExhausted e"
    by blast
  have "length (tokens pool_quarantined) \<noteq> 0"
    by (simp add: pool_quarantined_def)
  then have "getNextToken never_fetch 1000001 pool_quarantined
      = (Inl NoEnabledTokensAvailable, pool_quarantined)"
    using h l by (simp add: getNextToken_def Let_def)
  with h show ?thesis by simp
qed


subsection \<open>Frames of the pool operations\<close>

lemma old_health_refl: "old_health s s"
  by (simp add: old_health_def)

lemma old_health_trans: "old_health s s1 \<Longrightarrow> old_health s1 s2 \<Longrightarrow> old_health s s2"
  by (auto simp: old_health_def)

lemma same_health_old: "same_health s s' \<Longrightarrow> nextAddr s' = nextAddr s \<Longrightarrow> old_health s s'"
  by (simp add: same_health_def old_health_def)

lemma map_alloc: "m = length objs \<Longrightarrow> map (alloc h n objs) [n ..< n + m] = objs"
  by (rule nth_equalityI) (simp_all add: alloc_def)

lemma loadTokens_forced_pool:
  "map (heap (loadTokens True now s)) (tokens (loadTokens True now s))
     = map token_of_row (admin_rows (store s))"
  by (simp add: loadTokens_def Let_def map_alloc)

lemma loadTokens_forced_frame:
  "store (loadTokens True now s) = store s
   \<and> currentTokenIndex (loadTokens True now s) = currentTokenIndex s
   \<and> old_health s (loadTokens True now s)
   \<and> (\<forall>b\<in>set (tokens (loadTokens True now s)). nextAddr s \<le> b \<and> b < nextAddr (loadTokens True now s))"
  by (simp add: loadTokens_def Let_def old_health_def alloc_def)

lemma loadTokens_cases:
  "loadTokens False now s = s \<or> loadTokens False now s = loadTokens True now s"
  by (simp add: loadTokens_def)

lemma loadTokens_old_health: "old_health s (loadTokens force now s)"
  by (simp add: loadTokens_def Let_def old_health_def alloc_def)

text \<open>What a successful call returns.\<close>

lemma getNextToken_returns:
  assumes "getNextToken fetch now s = (Inr b, s')"
  shows "b \<in> set (availableTokens now (loadTokens False now s))
         \<and> tokens s' = tokens (loadTokens False now s)
         \<and> same_health (loadTokens False now s) s'
         \<and> nextAddr s' = nextAddr (loadTokens False now s)"
proof -
  let ?s1 = "loadTokens False now s"
  let ?av = "availableTokens now ?s1"
  let ?a = "?av ! (currentTokenIndex ?s1 mod length ?av)"
  let ?s2 = "?s1\<lparr>currentTokenIndex := advance (currentTokenIndex ?s1)\<rparr>"
  from assms have ne: "?av \<noteq> []"
    by (auto simp: getNextToken_def Let_def split: if_splits)
  then have mem: "?a \<in> set ?av" by simp
  have sh2: "same_health ?s1 ?s2" by (simp add: same_health_def)
  from assms ne have ba: "b = ?a"
    by (auto simp: getNextToken_def Let_def split: if_splits sum.splits)
  show ?thesis
  proof (cases "isExpired now (heap ?s2 ?a)")
    case False
    with assms ne have "s' = recordUsage now ?a ?s2"
      by (auto simp: getNextToken_def Let_def split: if_splits sum.splits)
    then show ?thesis
      using ba mem by (simp add: recordUsage_frame same_health_def)
  next
    case True
    with assms ne obtain s3 where r: "refreshToken fetch now ?a ?s2 = Inr s3"
      and s': "s' = recordUsage now ?a s3"
      by (auto simp: getNextToken_def Let_def split: if_splits sum.splits)
    from refreshToken_frame [OF r] show ?thesis
      using ba mem s' by (simp add: recordUsage_frame same_health_def)
  qed
qed

lemma getNextToken_old_health: "old_health s (snd (getNextToken fetch now s))"
proof -
  let ?s1 = "loadTokens False now s"
  let ?av = "availableTokens now ?s1"
  let ?a = "?av ! (currentTokenIndex ?s1 mod length ?av)"
  let ?s2 = "?s1\<lparr>currentTokenIndex := advance (currentTokenIndex ?s1)\<rparr>"
  have o1: "old_health s ?s1" by (rule loadTokens_old_health)
  have o2: "old_health s ?s2" using o1 by (simp add: old_health_def)
  have o3: "old_health s (recordUsage now ?a ?s2)"
    using o2 by (simp add: old_health_def recordUsage_frame)
  have o4: "old_health s (recordUsage now ?a s3)" if "refreshToken fetch now ?a ?s2 = Inr s3" for s3
    using refreshToken_frame [OF that] o2
    by (simp add: old_health_def same_health_def recordUsage_frame)
  show ?thesis
    using o1 o2 o3 o4 by (auto simp: getNextToken_def Let_def split: sum.splits)
qed

subsection \<open>Quarantine and the quota sweep\<close>


lemma disableTokenUntil_heap:
  "heap (disableTokenUntil a t s)
     = (heap s)(a := (heap s a)\<lparr>disabledUntil := Some t, quotaExhausted := True\<rparr>)
   \<and> tokens (disableTokenUntil a t s) = tokens s
   \<and> nextAddr (disableTokenUntil a t s) = nextAddr s
   \<and> lastLoadTime (disableTokenUntil a t s) = lastLoadTime s
   \<and> currentTokenIndex (disableTokenUntil a t s) = currentTokenIndex s"
  by (simp add: disableTokenUntil_def saveToDatabase_def)

lemma disableTokenUntil_store:
  "dbId (heap s a) \<noteq> 0 \<Longrightarrow>
   google_tokens (store (disableTokenUntil a t s))
     = map (save_row ((heap s a)\<lparr>disabledUntil := Some t, quotaExhausted := True\<rparr>))
         (google_tokens (store s))"
  by (simp add: disableTokenUntil_def saveToDatabase_def)

lemma in_pool_obj:
  assumes "map f xs = ys" and "x \<in> set xs"
  shows "f x \<in> set ys"
  using assms by auto

lemma quarantined_not_eligible:
  "now < t \<Longrightarrow> 0 \<le> now \<Longrightarrow> disabledUntil tok = Some t \<Longrightarrow> \<not> eligible now tok"
  by (simp add: eligible_def isTokenDisabledByQuota_def)





lemma getNextToken_eligible:
  assumes "getNextToken fetch now s = (Inr b, s')"
  shows "b \<in> set (tokens s') \<and> eligible now (heap s' b)"
proof -
  from getNextToken_returns [OF assms]
  have b: "b \<in> set (availableTokens now (loadTokens False now s))"
    and t: "tokens s' = tokens (loadTokens False now s)"
    and sh: "same_health (loadTokens False now s) s'"
    by simp_all
  show ?thesis
    using b t same_health_eligible [OF sh, of now b] by (simp add: availableTokens_def)
qed




subsection \<open>Round robin\<close>

lemma refreshToken_store:
  assumes "refreshToken fetch now a s = Inr s'"
  shows "google_tokens (store s') = google_tokens (store s)
         \<or> google_tokens (store s') = map (save_row (heap s' a)) (google_tokens (store s))"
  using assms
  by (auto simp: refreshToken_def saveToDatabase_def split: sum.splits response.splits if_splits)

lemma loadTokens_cursor: "currentTokenIndex (loadTokens force now s) = currentTokenIndex s"
  by (simp add: loadTokens_def Let_def)

text \<open>The part of \<^verbatim>\<open>getNextToken\<close> after the load step, on a set whose members are all
  eligible.\<close>

lemma getNextToken_select:
  assumes ne: "tokens (loadTokens False now s) \<noteq> []"
    and el: "\<forall>a\<in>set (tokens (loadTokens False now s)). eligible now (heap (loadTokens False now s) a)"
    and ok: "\<And>t. (\<exists>acc ei. fetch t = Inr (Response_ok acc ei)) \<or> \<not> isExpired now t"
  shows "\<exists>s'. getNextToken fetch now s
            = (Inr (tokens (loadTokens False now s)
                      ! (currentTokenIndex s mod length (tokens (loadTokens False now s)))), s')
          \<and> tokens s' = tokens (loadTokens False now s)
          \<and> lastLoadTime s' = lastLoadTime (loadTokens False now s)
          \<and> currentTokenIndex s' = advance (currentTokenIndex s)
          \<and> same_health (loadTokens False now s) s'
          \<and> (google_tokens (store s') = google_tokens (store (loadTokens False now s))
              \<or> google_tokens (store s')
                  = map (save_row (heap s' (tokens (loadTokens False now s)
                      ! (currentTokenIndex s mod length (tokens (loadTokens False now s))))))
                      (google_tokens (store (loadTokens False now s))))"
proof -
  define s1 where "s1 = loadTokens False now s"
  define a where "a = tokens s1 ! (currentTokenIndex s1 mod length (tokens s1))"
  define s2 where "s2 = s1\<lparr>currentTokenIndex := advance (currentTokenIndex s1)\<rparr>"
  have c1: "currentTokenIndex s1 = currentTokenIndex s"
    by (simp add: s1_def loadTokens_cursor)
  have av: "availableTokens now s1 = tokens s1"
    using el by (simp add: availableTokens_def s1_def)
  have ne1: "tokens s1 \<noteq> []" using ne by (simp add: s1_def)
  have sh2: "same_health s1 s2" by (simp add: same_health_def s2_def)
  have g: "getNextToken fetch now s
      = (if isExpired now (heap s2 a)
         then (case refreshToken fetch now a s2 of
                 Inl e \<Rightarrow> (Inl e, s2)
               | Inr s3 \<Rightarrow> (Inr a, recordUsage now a s3))
         else (Inr a, recordUsage now a s2))"
    unfolding a_def s2_def using ne1 av
    by (simp add: getNextToken_def Let_def s1_def [symmetric])
  have goal: "\<exists>s'. getNextToken fetch now s = (Inr a, s')
          \<and> tokens s' = tokens s1 \<and> lastLoadTime s' = lastLoadTime s1
          \<and> currentTokenIndex s' = advance (currentTokenIndex s)
          \<and> same_health s1 s'
          \<and> (google_tokens (store s') = google_tokens (store s1)
              \<or> google_tokens (store s') = map (save_row (heap s' a)) (google_tokens (store s1)))"
  proof (cases "isExpired now (heap s2 a)")
    case False
    then have "getNextToken fetch now s = (Inr a, recordUsage now a s2)"
      using g by simp
    moreover have "same_health s1 (recordUsage now a s2)"
      using sh2 by (simp add: same_health_def recordUsage_frame)
    ultimately show ?thesis
      by (simp add: recordUsage_frame s2_def c1)
  next
    case True
    then obtain acc ei where f: "fetch (heap s2 a) = Inr (Response_ok acc ei)"
      using ok [of "heap s2 a"] by blast
    then obtain s3 where r: "refreshToken fetch now a s2 = Inr s3"
      by (simp add: refreshToken_def)
    from refreshToken_frame [OF r]
    have fr: "same_health s2 s3" "tokens s3 = tokens s1" "lastLoadTime s3 = lastLoadTime s1"
      "currentTokenIndex s3 = advance (currentTokenIndex s)"
      by (simp_all add: s2_def c1)
    have st: "google_tokens (store s3) = google_tokens (store s1)
         \<or> google_tokens (store s3) = map (save_row (heap s3 a)) (google_tokens (store s1))"
      using refreshToken_store [OF r] by (simp add: s2_def)
    have "getNextToken fetch now s = (Inr a, recordUsage now a s3)"
      using g True r by simp
    moreover have "same_health s1 (recordUsage now a s3)"
      using sh2 fr(1) by (simp add: same_health_def recordUsage_frame)
    ultimately show ?thesis
      using fr st by (simp add: recordUsage_frame)
  qed
  then show ?thesis
    unfolding a_def c1 unfolding s1_def .
qed

lemma in_sync_tl: "in_sync (now # ts) s \<Longrightarrow> in_sync ts s"
  by (simp add: in_sync_def)

lemma eligible_save_row:
  assumes "row_id r = dbId t"
  shows "eligible now (token_of_row (save_row t r)) = eligible now t"
  using assms
  by (simp add: eligible_def isTokenDisabledByQuota_def token_of_row_def save_row_def)

lemma in_sync_after_save:
  assumes sync: "in_sync ts s1"
    and a: "a \<in> set (tokens s1)"
    and sh: "same_health s1 s'" and tk: "tokens s' = tokens s1"
    and en: "enable (heap s1 a)"
    and el: "\<forall>now\<in>set ts. eligible now (heap s1 a)"
    and rows: "google_tokens (store s') = google_tokens (store s1)
               \<or> google_tokens (store s') = map (save_row (heap s' a)) (google_tokens (store s1))"
  shows "in_sync ts s'"
proof -
  have ids: "map (\<lambda>a. dbId (heap s' a)) (tokens s') = map (\<lambda>a. dbId (heap s1 a)) (tokens s1)"
    using sh tk by (simp add: same_health_def)
  from rows show ?thesis
  proof
    assume "google_tokens (store s') = google_tokens (store s1)"
    then show ?thesis
      using sync ids by (simp add: in_sync_def admin_rows_def)
  next
    assume r: "google_tokens (store s') = map (save_row (heap s' a)) (google_tokens (store s1))"
    let ?T = "heap s' a"
    let ?rows = "google_tokens (store s1)"
    let ?adm = "\<lambda>r. user_id r = None \<and> enabled r"
    have T: "dbId ?T = dbId (heap s1 a)" "enable ?T"
      using sh en by (simp_all add: same_health_def)
    have elT: "eligible now ?T" if "now \<in> set ts" for now
      using el that same_health_eligible [OF sh, of now a] by simp
    have dist: "distinct (map row_id ?rows)"
      using sync by (simp add: in_sync_def)
    have e: "map (\<lambda>a. dbId (heap s1 a)) (tokens s1) = map row_id (admin_rows (store s1))"
      using sync by (simp add: in_sync_def)
    have "dbId (heap s1 a) \<in> set (map row_id (admin_rows (store s1)))"
      unfolding e [symmetric] using a by simp
    then obtain r0 where r0: "r0 \<in> set ?rows" "?adm r0" "row_id r0 = dbId ?T"
      using T(1) by (auto simp: admin_rows_def)
    have same: "r = r0" if "r \<in> set ?rows" "row_id r = dbId ?T" for r
      using dist that r0(1,3) by (metis distinct_map inj_on_eq_iff)
    have adm: "?adm (save_row ?T r) = ?adm r" if "r \<in> set ?rows" for r
    proof (cases "row_id r = dbId ?T")
      case True
      have "r = r0" using same [OF that True] .
      then show ?thesis using r0(2) T(2) True by (simp add: save_row_def)
    next
      case False
      then show ?thesis by (simp add: save_row_def)
    qed
    have ar: "admin_rows (store s') = map (save_row ?T) (admin_rows (store s1))"
    proof -
      have "admin_rows (store s') = map (save_row ?T) (filter (\<lambda>r. ?adm (save_row ?T r)) ?rows)"
        by (simp add: admin_rows_def r filter_map comp_def)
      also have "filter (\<lambda>r. ?adm (save_row ?T r)) ?rows = filter ?adm ?rows"
        by (rule filter_cong) (simp_all add: adm)
      finally show ?thesis by (simp add: admin_rows_def)
    qed
    have rid: "row_id (save_row ?T r) = row_id r" for r
      by (simp add: save_row_def)
    have 1: "map (\<lambda>a. dbId (heap s' a)) (tokens s') = map row_id (admin_rows (store s'))"
      using sync ids by (simp add: ar in_sync_def comp_def rid)
    have 2: "distinct (map row_id (google_tokens (store s')))"
      using dist by (simp add: r comp_def rid)
    have 3: "eligible now (token_of_row (save_row ?T r0'))"
      if "now \<in> set ts" "r0' \<in> set (admin_rows (store s1))" for now r0'
    proof (cases "row_id r0' = dbId ?T")
      case True
      then show ?thesis using elT [OF that(1)] by (simp add: eligible_save_row)
    next
      case False
      then have "save_row ?T r0' = r0'" by (simp add: save_row_def)
      then show ?thesis using sync that by (simp add: in_sync_def list_all_iff)
    qed
    show ?thesis
      using 1 2 3 by (simp add: in_sync_def ar list_all_iff)
  qed
qed

lemma loadTokens_reload:
  "\<not> now - lastLoadTime s < loadInterval \<Longrightarrow> loadTokens False now s = loadTokens True now s"
  by (simp add: loadTokens_def)

lemma loadTokens_forced_store: "store (loadTokens True now s) = store s"
  by (simp add: loadTokens_def Let_def)

lemma getNextToken_step:
  assumes ne: "tokens s \<noteq> []"
    and el: "\<forall>now'\<in>set (now # ts). \<forall>a\<in>set (tokens s). eligible now' (heap s a)"
    and sy: "(\<forall>now'\<in>set (now # ts). now' - lastLoadTime s < loadInterval) \<or> in_sync (now # ts) s"
    and ok: "\<And>t. (\<exists>acc ei. fetch t = Inr (Response_ok acc ei)) \<or> \<not> isExpired now t"
  shows "\<exists>a s'. getNextToken fetch now s = (Inr a, s')
       \<and> dbId (heap s' a)
           = map (\<lambda>a. dbId (heap s a)) (tokens s) ! (currentTokenIndex s mod length (tokens s))
       \<and> (now - lastLoadTime s < loadInterval \<longrightarrow>
             a = tokens s ! (currentTokenIndex s mod length (tokens s))
             \<and> tokens s' = tokens s \<and> lastLoadTime s' = lastLoadTime s)
       \<and> currentTokenIndex s' = advance (currentTokenIndex s)
       \<and> map (\<lambda>a. dbId (heap s' a)) (tokens s') = map (\<lambda>a. dbId (heap s a)) (tokens s)
       \<and> (\<forall>now'\<in>set ts. \<forall>a\<in>set (tokens s'). eligible now' (heap s' a))
       \<and> ((\<forall>now'\<in>set ts. now' - lastLoadTime s' < loadInterval) \<or> in_sync ts s')"
proof -
  define s1 where "s1 = loadTokens False now s"
  define c where "c = currentTokenIndex s"
  \<comment> \<open>the state after the load step\<close>
  have L: "tokens s1 \<noteq> []
       \<and> map (\<lambda>a. dbId (heap s1 a)) (tokens s1) = map (\<lambda>a. dbId (heap s a)) (tokens s)
       \<and> (\<forall>now'\<in>set (now # ts). \<forall>a\<in>set (tokens s1). eligible now' (heap s1 a))
       \<and> ((s1 = s \<and> (\<forall>now'\<in>set (now # ts). now' - lastLoadTime s < loadInterval))
           \<or> in_sync (now # ts) s1)
       \<and> (now - lastLoadTime s < loadInterval \<longrightarrow> s1 = s)"
  proof (cases "now - lastLoadTime s < loadInterval")
    case True
    then have e: "s1 = s" using ne by (simp add: s1_def loadTokens_cached)
    show ?thesis using e ne el sy by auto
  next
    case False
    then have sync: "in_sync (now # ts) s" using sy by auto
    have e: "s1 = loadTokens True now s"
      using False by (simp add: s1_def loadTokens_reload)
    have st: "store s1 = store s" by (simp add: e loadTokens_forced_store)
    have objs: "map (heap s1) (tokens s1) = map token_of_row (admin_rows (store s))"
      unfolding e by (rule loadTokens_forced_pool)
    have "map (\<lambda>a. dbId (heap s1 a)) (tokens s1) = map dbId (map (heap s1) (tokens s1))"
      by (simp add: comp_def)
    also have "\<dots> = map row_id (admin_rows (store s))"
      unfolding objs by (simp add: comp_def token_of_row_def)
    finally have ids1: "map (\<lambda>a. dbId (heap s1 a)) (tokens s1) = map row_id (admin_rows (store s))" .
    have ids: "map (\<lambda>a. dbId (heap s1 a)) (tokens s1) = map (\<lambda>a. dbId (heap s a)) (tokens s)"
      using ids1 sync by (simp add: in_sync_def)
    have "length (tokens s1) = length (tokens s)"
      using arg_cong [OF ids, of length] by simp
    then have ne1: "tokens s1 \<noteq> []" using ne by auto
    have el1: "eligible now' (heap s1 b)" if "now' \<in> set (now # ts)" "b \<in> set (tokens s1)" for now' b
    proof -
      have "heap s1 b \<in> set (map token_of_row (admin_rows (store s)))"
        using in_pool_obj [OF objs that(2)] .
      then obtain r where "r \<in> set (admin_rows (store s))" "heap s1 b = token_of_row r" by auto
      then show ?thesis
        using sync that(1) by (auto simp: in_sync_def list_all_iff)
    qed
    have sync1: "in_sync (now # ts) s1"
      using sync ids1 unfolding in_sync_def st by simp
    show ?thesis using ne1 ids el1 sync1 False by blast
  qed
  then have ne1: "tokens s1 \<noteq> []"
    and ids1: "map (\<lambda>a. dbId (heap s1 a)) (tokens s1) = map (\<lambda>a. dbId (heap s a)) (tokens s)"
    and el1: "\<forall>now'\<in>set (now # ts). \<forall>a\<in>set (tokens s1). eligible now' (heap s1 a)"
    and sy1: "(s1 = s \<and> (\<forall>now'\<in>set (now # ts). now' - lastLoadTime s < loadInterval))
           \<or> in_sync (now # ts) s1"
    and fr1: "now - lastLoadTime s < loadInterval \<longrightarrow> s1 = s"
    by blast+
  have len: "length (tokens s1) = length (tokens s)"
    using arg_cong [OF ids1, of length] by simp
  define a where "a = tokens s1 ! (c mod length (tokens s1))"
  have ain: "a \<in> set (tokens s1)"
    using ne1 by (simp add: a_def)
  have elnow: "\<forall>a\<in>set (tokens s1). eligible now (heap s1 a)"
    using el1 by simp
  from getNextToken_select [OF ne1 [unfolded s1_def] elnow [unfolded s1_def] ok]
  obtain s' where g: "getNextToken fetch now s = (Inr a, s')"
    and tk: "tokens s' = tokens s1" and lt: "lastLoadTime s' = lastLoadTime s1"
    and cu: "currentTokenIndex s' = advance (currentTokenIndex s)"
    and sh: "same_health s1 s'"
    and rows: "google_tokens (store s') = google_tokens (store s1)
              \<or> google_tokens (store s') = map (save_row (heap s' a)) (google_tokens (store s1))"
    unfolding s1_def [symmetric] c_def [symmetric] a_def [symmetric] by blast
  have idx: "c mod length (tokens s1) < length (tokens s1)"
    using ne1 by simp
  have "dbId (heap s' a) = dbId (heap s1 a)"
    using sh by (simp add: same_health_def)
  also have "\<dots> = map (\<lambda>a. dbId (heap s1 a)) (tokens s1) ! (c mod length (tokens s1))"
    using idx by (simp add: a_def)
  finally have A: "dbId (heap s' a)
      = map (\<lambda>a. dbId (heap s a)) (tokens s) ! (c mod length (tokens s))"
    by (simp only: ids1 len)
  have B: "now - lastLoadTime s < loadInterval \<longrightarrow>
             a = tokens s ! (c mod length (tokens s))
             \<and> tokens s' = tokens s \<and> lastLoadTime s' = lastLoadTime s"
    using fr1 tk lt by (auto simp: a_def)
  have D: "map (\<lambda>a. dbId (heap s' a)) (tokens s') = map (\<lambda>a. dbId (heap s a)) (tokens s)"
    using sh tk ids1 by (simp add: same_health_def)
  have E: "\<forall>now'\<in>set ts. \<forall>a\<in>set (tokens s'). eligible now' (heap s' a)"
    using el1 tk same_health_eligible [OF sh] by simp
  have F: "(\<forall>now'\<in>set ts. now' - lastLoadTime s' < loadInterval) \<or> in_sync ts s'"
    using sy1
  proof
    assume "s1 = s \<and> (\<forall>now'\<in>set (now # ts). now' - lastLoadTime s < loadInterval)"
    then show ?thesis using lt by simp
  next
    assume "in_sync (now # ts) s1"
    then have s: "in_sync ts s1" by (rule in_sync_tl)
    have en: "enable (heap s1 a)"
      using elnow ain by (simp add: eligible_def)
    have ela: "\<forall>now'\<in>set ts. eligible now' (heap s1 a)"
      using el1 ain by simp
    have "in_sync ts s'"
      by (rule in_sync_after_save [OF s ain sh tk en ela rows])
    then show ?thesis by simp
  qed
  show ?thesis
    using g A B cu D E F unfolding c_def by blast
qed

text \<open>A run of consecutive calls, by induction on the call times.\<close>

lemma getNextTokens_run:
  assumes "tokens s \<noteq> []"
    and "\<forall>now\<in>set ts. \<forall>a\<in>set (tokens s). eligible now (heap s a)"
    and "(\<forall>now\<in>set ts. now - lastLoadTime s < loadInterval) \<or> in_sync ts s"
    and "\<And>t. (\<exists>acc ei. fetch t = Inr (Response_ok acc ei)) \<or> (\<forall>now\<in>set ts. \<not> isExpired now t)"
    and "currentTokenIndex s + length ts \<le> 10001"
  shows "map (map_sum id (\<lambda>p. dbId (snd p))) (fst (getNextTokens fetch ts s))
           = map (\<lambda>k. Inr (map (\<lambda>a. dbId (heap s a)) (tokens s) ! (k mod length (tokens s))))
               [currentTokenIndex s ..< currentTokenIndex s + length ts]
       \<and> ((\<forall>now\<in>set ts. now - lastLoadTime s < loadInterval) \<longrightarrow>
            map (map_sum id fst) (fst (getNextTokens fetch ts s))
              = map (\<lambda>k. Inr (tokens s ! (k mod length (tokens s))))
                  [currentTokenIndex s ..< currentTokenIndex s + length ts])"
  using assms
proof (induction ts arbitrary: s)
  case Nil
  then show ?case by simp
next
  case (Cons now ts)
  let ?c = "currentTokenIndex s"
  let ?N = "length (tokens s)"
  let ?ids = "map (\<lambda>a. dbId (heap s a)) (tokens s)"
  let ?f = "\<lambda>k. Inr (?ids ! (k mod ?N)) :: error + int"
  let ?g = "\<lambda>k. Inr (tokens s ! (k mod ?N)) :: error + addr"
  have ok: "(\<exists>acc ei. fetch t = Inr (Response_ok acc ei)) \<or> \<not> isExpired now t" for t
    using Cons.prems(4) [of t] by auto
  from getNextToken_step [OF Cons.prems(1,2,3) ok]
  obtain a s' where g: "getNextToken fetch now s = (Inr a, s')"
    and A: "dbId (heap s' a) = ?ids ! (?c mod ?N)"
    and B: "now - lastLoadTime s < loadInterval \<longrightarrow>
             a = tokens s ! (?c mod ?N) \<and> tokens s' = tokens s \<and> lastLoadTime s' = lastLoadTime s"
    and cu: "currentTokenIndex s' = advance ?c"
    and D: "map (\<lambda>a. dbId (heap s' a)) (tokens s') = ?ids"
    and E: "\<forall>now'\<in>set ts. \<forall>a\<in>set (tokens s'). eligible now' (heap s' a)"
    and F: "(\<forall>now'\<in>set ts. now' - lastLoadTime s' < loadInterval) \<or> in_sync ts s'"
    by blast
  have len: "length (tokens s') = ?N"
    using arg_cong [OF D, of length] by simp
  have ne': "tokens s' \<noteq> []" using len Cons.prems(1) by auto
  have ok': "(\<exists>acc ei. fetch t = Inr (Response_ok acc ei)) \<or> (\<forall>now\<in>set ts. \<not> isExpired now t)" for t
    using Cons.prems(4) [of t] by auto
  have u: "[?c ..< ?c + length (now # ts)] = ?c # [Suc ?c ..< Suc ?c + length ts]"
    by (simp add: upt_conv_Cons del: upt_Suc)
  obtain rs s2 where r: "getNextTokens fetch ts s' = (rs, s2)"
    by (cases "getNextTokens fetch ts s'")
  have h: "fst (getNextTokens fetch (now # ts) s) = Inr (a, heap s' a) # rs"
    using g r by simp
  have t: "map (map_sum id (\<lambda>p. dbId (snd p))) rs = map ?f [Suc ?c ..< Suc ?c + length ts]
       \<and> ((\<forall>now\<in>set (now # ts). now - lastLoadTime s < loadInterval) \<longrightarrow>
            map (map_sum id fst) rs = map ?g [Suc ?c ..< Suc ?c + length ts])"
  proof (cases ts)
    case Nil
    then show ?thesis using r by simp
  next
    case (Cons now' ts')
    then have c: "currentTokenIndex s' = Suc ?c"
      using cu Cons.prems(5) by (simp add: advance_def)
    have b: "currentTokenIndex s' + length ts \<le> 10001"
      using c Cons.prems(5) by simp
    note ih = Cons.IH [OF ne' E F ok' b, unfolded r fst_conv D len c]
    have fresh: "tokens s' = tokens s \<and> (\<forall>now\<in>set ts. now - lastLoadTime s' < loadInterval)"
      if "\<forall>now\<in>set (now # ts). now - lastLoadTime s < loadInterval"
      using that B by simp
    have t1: "map (map_sum id (\<lambda>p. dbId (snd p))) rs = map ?f [Suc ?c ..< Suc ?c + length ts]"
      using ih by (rule conjunct1)
    have t2: "map (map_sum id fst) rs = map ?g [Suc ?c ..< Suc ?c + length ts]"
      if a: "\<forall>now\<in>set (now # ts). now - lastLoadTime s < loadInterval"
    proof -
      have e: "tokens s' = tokens s" using fresh [OF a] by (rule conjunct1)
      have f: "\<forall>now\<in>set ts. now - lastLoadTime s' < loadInterval"
        using fresh [OF a] by (rule conjunct2)
      from ih have "map (map_sum id fst) rs
          = map (\<lambda>k. Inr (tokens s' ! (k mod ?N))) [Suc ?c ..< Suc ?c + length ts]"
        using f by blast
      then show ?thesis unfolding e .
    qed
    show ?thesis
      using t1 t2 by blast
  qed
  have first: "now - lastLoadTime s < loadInterval \<longrightarrow> a = tokens s ! (?c mod ?N)"
    using B by simp
  show ?case
    unfolding h u using t A first unfolding id_def by (simp del: upt_Suc)
qed

lemma mset_rotate_eq: "mset (rotate n xs) = mset xs"
proof -
  let ?k = "n mod length xs"
  have "mset (rotate n xs) = mset (drop ?k xs) + mset (take ?k xs)"
    by (simp add: rotate_drop_take)
  also have "\<dots> = mset (take ?k xs) + mset (drop ?k xs)"
    by (simp add: add.commute)
  also have "\<dots> = mset (take ?k xs @ drop ?k xs)"
    by (simp only: mset_append)
  also have "\<dots> = mset xs"
    by (simp only: append_take_drop_id)
  finally show ?thesis .
qed

lemma rotate_as_map:
  assumes "xs \<noteq> []"
  shows "map (\<lambda>k. xs ! (k mod length xs)) [c ..< c + length xs] = rotate c xs"
proof (rule nth_equalityI)
  show "length (map (\<lambda>k. xs ! (k mod length xs)) [c ..< c + length xs]) = length (rotate c xs)"
    by simp
next
  fix i assume "i < length (map (\<lambda>k. xs ! (k mod length xs)) [c ..< c + length xs])"
  then have i: "i < length xs" by simp
  then show "map (\<lambda>k. xs ! (k mod length xs)) [c ..< c + length xs] ! i = rotate c xs ! i"
    by (simp add: nth_rotate)
qed

text \<open>
  C1 (as amended). Take a pool of \<open>N \<ge> 1\<close> credentials that are all eligible at each of
  the \<open>N\<close> call times, with every refresh the calls need succeeding, and with nothing
  changing the set between the calls: either the cached load is still fresh at every
  call, or the calls may reload the set and the store still holds exactly the cached
  credentials, as eligible rows. If the cursor does not reach its reset bound within
  the \<open>N\<close> calls (cursor + \<open>N \<le> 10001\<close>), then \<open>N\<close> consecutive \<^verbatim>\<open>getNextToken\<close> calls
  all succeed and return the credentials (by their database ids) in rotation order
  starting at cursor mod \<open>N\<close>: each credential exactly once. While the cached load is
  fresh the calls return the cached objects themselves, in that order; after a reload
  they return the reloaded objects of the same rows.
\<close>

theorem getNextToken_round_robin:
  assumes "tokens s \<noteq> []"
    and "length ts = length (tokens s)"
    and "\<forall>now\<in>set ts. \<forall>a\<in>set (tokens s). eligible now (heap s a)"
    and "(\<forall>now\<in>set ts. now - lastLoadTime s < loadInterval) \<or> in_sync ts s"
    and "\<And>t. (\<exists>acc ei. fetch t = Inr (Response_ok acc ei)) \<or> (\<forall>now\<in>set ts. \<not> isExpired now t)"
    and "currentTokenIndex s + length (tokens s) \<le> 10001"
  shows "map (map_sum id (\<lambda>p. dbId (snd p))) (fst (getNextTokens fetch ts s))
           = map Inr (rotate (currentTokenIndex s) (map (\<lambda>a. dbId (heap s a)) (tokens s)))
       \<and> mset (map (map_sum id (\<lambda>p. dbId (snd p))) (fst (getNextTokens fetch ts s)))
           = mset (map Inr (map (\<lambda>a. dbId (heap s a)) (tokens s)))
       \<and> ((\<forall>now\<in>set ts. now - lastLoadTime s < loadInterval) \<longrightarrow>
            map (map_sum id fst) (fst (getNextTokens fetch ts s))
              = map Inr (rotate (currentTokenIndex s) (tokens s)))"
proof -
  let ?c = "currentTokenIndex s"
  let ?ids = "map (\<lambda>a. dbId (heap s a)) (tokens s)"
  have b: "?c + length ts \<le> 10001" using assms(2,6) by simp
  note run = getNextTokens_run [OF assms(1,3,4,5) b]
  have lid: "length ?ids = length (tokens s)" by simp
  have ne: "?ids \<noteq> []" using assms(1) by simp
  have "map (map_sum id (\<lambda>p. dbId (snd p))) (fst (getNextTokens fetch ts s))
        = map Inr (map (\<lambda>k. ?ids ! (k mod length ?ids)) [?c ..< ?c + length ?ids])"
    using run assms(2) by (simp add: comp_def)
  also have "\<dots> = map Inr (rotate ?c ?ids)"
    by (simp only: rotate_as_map [OF ne])
  finally have 1: "map (map_sum id (\<lambda>p. dbId (snd p))) (fst (getNextTokens fetch ts s))
        = map Inr (rotate ?c ?ids)" .
  have "mset (map Inr (rotate ?c ?ids) :: (error + int) list) = mset (rotate ?c (map Inr ?ids))"
    by (simp only: rotate_map)
  also have "\<dots> = mset (map Inr ?ids)"
    by (rule mset_rotate_eq)
  finally have 2: "mset (map (map_sum id (\<lambda>p. dbId (snd p))) (fst (getNextTokens fetch ts s)))
           = mset (map Inr ?ids)"
    unfolding 1 .
  have 3: "map (map_sum id fst) (fst (getNextTokens fetch ts s)) = map Inr (rotate ?c (tokens s))"
    if fr: "\<forall>now\<in>set ts. now - lastLoadTime s < loadInterval"
  proof -
    have "map (map_sum id fst) (fst (getNextTokens fetch ts s))
        = map Inr (map (\<lambda>k. tokens s ! (k mod length (tokens s))) [?c ..< ?c + length (tokens s)])"
      using run fr assms(2) by (simp add: comp_def)
    also have "\<dots> = map Inr (rotate ?c (tokens s))"
      by (simp only: rotate_as_map [OF assms(1)])
    finally show ?thesis .
  qed
  show ?thesis using 1 2 3 by blast
qed

theorem getNextToken_round_robin_witness:
  "1060000 - lastLoadTime (pool2 0) = loadInterval
   \<and> in_sync [1059999, 1060000] (pool2 0)
   \<and> map (map_sum id (\<lambda>p. dbId (snd p)))
         (fst (getNextTokens always_fetch [1059999, 1060000] (pool2 0))) = [Inr 1, Inr 2]"
proof -
  have t: "tokens (pool2 0) = [0, 1]" "currentTokenIndex (pool2 0) = 0"
    "lastLoadTime (pool2 0) = 1000000"
    by (simp_all add: pool2_def)
  have ids: "map (\<lambda>a. dbId (heap (pool2 0) a)) [0, 1] = [1, 2]"
    by (simp add: pool2_def example_token_def)
  have ne: "tokens (pool2 0) \<noteq> []" by (simp add: t)
  have len: "length [1059999, 1060000 :: int] = length (tokens (pool2 0))" by (simp add: t)
  have el: "\<forall>now\<in>set [1059999, 1060000]. \<forall>a\<in>set (tokens (pool2 0)).
              eligible now (heap (pool2 0) a)"
    by (simp add: pool2_def eligible_def isTokenDisabledByQuota_def example_token_def)
  have sy: "in_sync [1059999, 1060000] (pool2 0)"
    by (simp add: in_sync_def pool2_def admin_rows_def token_of_row_def eligible_def
        isTokenDisabledByQuota_def example_token_def example_row_def empty_db_def)
  have ok: "\<And>t. (\<exists>acc ei. always_fetch t = Inr (Response_ok acc ei))
                \<or> (\<forall>now\<in>set [1059999, 1060000]. \<not> isExpired now t)"
    by (simp add: always_fetch_def)
  have c: "currentTokenIndex (pool2 0) + length (tokens (pool2 0)) \<le> 10001"
    by (simp add: t)
  have l: "1060000 - lastLoadTime (pool2 0) = loadInterval"
    by (simp add: t loadInterval_def)
  from getNextToken_round_robin [OF ne len el disjI2 [OF sy] ok c]
  have "map (map_sum id (\<lambda>p. dbId (snd p)))
          (fst (getNextTokens always_fetch [1059999, 1060000] (pool2 0)))
        = map Inr (rotate 0 (map (\<lambda>a. dbId (heap (pool2 0) a)) [0, 1]))"
    unfolding t by (rule conjunct1)
  then have "map (map_sum id (\<lambda>p. dbId (snd p)))
          (fst (getNextTokens always_fetch [1059999, 1060000] (pool2 0))) = [Inr 1, Inr 2]"
    unfolding ids by simp
  then show ?thesis using l sy by blast
qed

text \<open>
  C1 as stated fails where the cursor is reset: with two eligible credentials and the
  cursor at 10000, two consecutive calls both return the first credential.
\<close>

lemma mod_aux: "(10000::nat) mod Suc (Suc 0) = 0"
proof -
  have "(10000::nat) mod 2 = 0" by simp
  then show ?thesis by (simp only: numeral_2_eq_2)
qed

theorem getNextToken_wrap_repeats:
  "availableTokens 1000001 (pool2 10000) = [0, 1]
   \<and> availableTokens 1000002 (pool2 10000) = [0, 1]
   \<and> map (map_sum id fst) (fst (getNextTokens never_fetch [1000001, 1000002] (pool2 10000)))
       = [Inr 0, Inr 0]
   \<and> map (map_sum id (\<lambda>p. dbId (snd p)))
         (fst (getNextTokens never_fetch [1000001, 1000002] (pool2 10000)))
       = [Inr 1, Inr 1]"
  by (simp add: getNextToken_def Let_def loadTokens_def loadInterval_def pool2_def
      availableTokens_def eligible_def isTokenDisabledByQuota_def example_token_def
      advance_def isExpired_def recordUsage_def mod_aux)

text \<open>
  The other conditions of the amended statement are needed as well: a call whose refresh
  fails throws instead of returning, and a reload from a store that no longer holds the
  cached credentials changes the set between two calls.
\<close>

lemma getNextToken_refresh_failure:
  "availableTokens 5000000 ((pool2 0)\<lparr>lastLoadTime := 5000000\<rparr>) = [0, 1]
   \<and> fst (getNextToken never_fetch 5000000 ((pool2 0)\<lparr>lastLoadTime := 5000000\<rparr>))
       = Inl \<lparr>statusCode = None, message = Some ''fetch failed''\<rparr>"
  by (simp add: getNextToken_def Let_def loadTokens_def loadInterval_def pool2_def
      availableTokens_def eligible_def isTokenDisabledByQuota_def example_token_def
      advance_def isExpired_def refreshToken_def never_fetch_def)

lemma getNextToken_reload_changed_store:
  "map (map_sum id (\<lambda>p. dbId (snd p)))
     (fst (getNextTokens never_fetch [1059999, 1060000]
             ((pool2 0)\<lparr>store := empty_db\<lparr>google_tokens := [example_row]\<rparr>\<rparr>)))
     = [Inr 1, Inr 1]"
  by (simp add: getNextToken_def Let_def loadTokens_def loadInterval_def pool2_def
      availableTokens_def eligible_def isTokenDisabledByQuota_def example_token_def
      example_row_def empty_db_def admin_rows_def token_of_row_def alloc_def
      advance_def isExpired_def recordUsage_def)


subsection \<open>Error classification\<close>

lemma getNextToken_errors:
  assumes "fst (getNextToken fetch now s) = Inl err"
  shows "PoolExhausted err
         \<or> (\<exists>tok. fetch tok = Inl err
               \<or> (\<exists>st txt. fetch tok = Inr (Response_fail st txt)
                     \<and> err = \<lparr>statusCode = Some st, message = Some txt\<rparr>))"
  using assms
  by (auto simp: getNextToken_def Let_def PoolExhausted_def refreshToken_def
      split: if_splits sum.splits response.splits)

lemma getNextToken_replacement:
  assumes g: "fst (getNextToken fetch now s) = Inr b"
    and a: "a < nextAddr s"
    and na: "\<not> eligible now (heap s a)"
  shows "b \<noteq> a \<and> b \<in> set (tokens (snd (getNextToken fetch now s)))
         \<and> eligible now (heap (snd (getNextToken fetch now s)) b)"
proof -
  let ?s' = "snd (getNextToken fetch now s)"
  let ?s1 = "loadTokens False now s"
  have g': "getNextToken fetch now s = (Inr b, ?s')"
    using g by (simp add: prod_eq_iff)
  from getNextToken_returns [OF g']
  have b: "b \<in> set (tokens ?s1)" "eligible now (heap ?s1 b)" and sh: "same_health ?s1 ?s'"
    and tk: "tokens ?s' = tokens ?s1"
    by (simp_all add: availableTokens_def)
  have e: "eligible now (heap ?s' b)"
    using b(2) same_health_eligible [OF sh] by simp
  have "old_health s ?s'" by (rule getNextToken_old_health)
  then have "eligible now (heap ?s' a) = eligible now (heap s a)"
    using a by (simp add: old_health_def eligible_def isTokenDisabledByQuota_def)
  then have "b \<noteq> a" using e na by auto
  then show ?thesis using e b(1) tk by simp
qed

lemma disableToken_heap:
  assumes "a < nextAddr s"
  shows "\<not> enable (heap (disableToken now a s) a)
         \<and> disabledUntil (heap (disableToken now a s) a) = None
         \<and> nextAddr s \<le> nextAddr (disableToken now a s)"
proof -
  let ?m = "saveToDatabase a
          (s\<lparr>heap := (heap s)(a := (heap s a)
                 \<lparr>enable := False, disabledUntil := None, quotaExhausted := False\<rparr>)\<rparr>)"
  have m: "\<not> enable (heap ?m a)" "disabledUntil (heap ?m a) = None" "nextAddr ?m = nextAddr s"
    by (simp_all add: saveToDatabase_def)
  have "old_health ?m (loadTokens True now ?m)" by (rule loadTokens_old_health)
  then show ?thesis
    using m assms unfolding disableToken_def old_health_def by metis
qed

lemma nextUtcMidnight_in_range:
  assumes "0 \<le> now" and "now + 86400000 \<le> max_time"
  shows "nextUtcMidnight now = Some ((now div 86400000 + 1) * 86400000)
         \<and> now < (now div 86400000 + 1) * 86400000
         \<and> (now div 86400000 + 1) * 86400000 \<le> now + 86400000
         \<and> (now div 86400000 + 1) * 86400000 mod 86400000 = 0"
proof -
  let ?D = "86400000 :: int"
  let ?m = "(now div ?D + 1) * ?D"
  have d: "(now + ?D) div ?D = now div ?D + 1" by simp
  have q: "0 \<le> now div ?D" using assms(1) by (simp add: pos_imp_zdiv_nonneg_iff)
  have lo: "now div ?D * ?D \<le> now"
    using div_mult_mod_eq [of now ?D] pos_mod_sign [of ?D now] by linarith
  have hi: "now < now div ?D * ?D + ?D"
    using div_mult_mod_eq [of now ?D] pos_mod_bound [of ?D now] by linarith
  have e: "?m = now div ?D * ?D + ?D" by (simp add: algebra_simps)
  have m0: "0 \<le> ?m" using q by simp
  have m1: "?m \<le> now + ?D" using lo e by linarith
  have m2: "now < ?m" using hi e by linarith
  have a1: "\<not> \<bar>now + ?D\<bar> > max_time" using assms by simp
  have a2: "\<not> \<bar>?m\<bar> > max_time" using m0 m1 assms(2) by simp
  have "nextUtcMidnight now = Some ?m"
    unfolding nextUtcMidnight_def Let_def d using a1 a2 by simp
  moreover have "?m mod ?D = 0" by simp
  ultimately show ?thesis using m1 m2 by blast
qed

lemma disableTokenUntil_other:
  assumes a: "a < nextAddr s"
    and i: "dbId (heap s a) \<noteq> 0"
    and uniq: "\<forall>b\<in>set (tokens s). dbId (heap s b) = dbId (heap s a) \<longrightarrow> b = a"
    and now: "0 \<le> now" "now < t"
    and g: "getNextToken fetch now (disableTokenUntil a t s) = (Inr b, s')"
  shows "dbId (heap s' b) \<noteq> dbId (heap s a)"
proof -
  let ?sd = "disableTokenUntil a t s"
  let ?s1 = "loadTokens False now ?sd"
  let ?T = "(heap s a)\<lparr>disabledUntil := Some t, quotaExhausted := True\<rparr>"
  note d = disableTokenUntil_heap [of a t s]
  from getNextToken_returns [OF g]
  have b: "b \<in> set (tokens ?s1)" "eligible now (heap ?s1 b)" and sh: "same_health ?s1 s'"
    by (simp_all add: availableTokens_def)
  have id: "dbId (heap s' b) = dbId (heap ?s1 b)"
    using sh by (simp add: same_health_def)
  have na: "\<not> eligible now (heap ?sd a)"
    using now by (intro quarantined_not_eligible [of now t]) (simp_all add: d)
  from loadTokens_cases [of now ?sd] show ?thesis
  proof
    assume l: "?s1 = ?sd"
    have "b \<noteq> a" using b(2) na l by auto
    moreover have "b \<in> set (tokens s)" using b(1) l d by simp
    moreover have "heap ?s1 b = heap s b" using \<open>b \<noteq> a\<close> l d by simp
    ultimately show ?thesis using uniq id by auto
  next
    assume l: "?s1 = loadTokens True now ?sd"
    have "heap ?s1 b \<in> set (map token_of_row (admin_rows (store ?sd)))"
      using in_pool_obj [OF loadTokens_forced_pool [of now ?sd]] b(1) l by simp
    then obtain r where r: "r \<in> set (admin_rows (store ?sd))" "heap ?s1 b = token_of_row r"
      by auto
    then obtain r0 where r0: "r = save_row ?T r0"
      using disableTokenUntil_store [OF i, of t] by (auto simp: admin_rows_def)
    have "dbId (heap ?s1 b) \<noteq> dbId (heap s a)"
    proof
      assume e: "dbId (heap ?s1 b) = dbId (heap s a)"
      then have "row_id r0 = dbId ?T"
        using r(2) r0 by (simp add: token_of_row_def save_row_def split: if_splits)
      then have "disabledUntil (token_of_row r) = Some t"
        using r0 now by (simp add: token_of_row_def save_row_def)
      then have "\<not> eligible now (heap ?s1 b)"
        using now r(2) by (intro quarantined_not_eligible [of now t]) simp_all
      then show False using b(2) by simp
    qed
    then show ?thesis using id by simp
  qed
qed

lemma disableToken_pool:
  assumes i: "dbId (heap s a) \<noteq> 0"
    and b: "b \<in> set (tokens (loadTokens force now2 (disableToken now a s)))"
  shows "dbId (heap (loadTokens force now2 (disableToken now a s)) b) \<noteq> dbId (heap s a)"
proof -
  let ?T = "(heap s a)\<lparr>enable := False, disabledUntil := None, quotaExhausted := False\<rparr>"
  let ?m = "saveToDatabase a (s\<lparr>heap := (heap s)(a := ?T)\<rparr>)"
  let ?sd = "disableToken now a s"
  let ?s1 = "loadTokens force now2 ?sd"
  have sd: "?sd = loadTokens True now ?m" by (simp add: disableToken_def)
  have st: "google_tokens (store ?m) = map (save_row ?T) (google_tokens (store s))"
    using i by (simp add: saveToDatabase_def)
  have sst: "store ?sd = store ?m"
    unfolding sd using loadTokens_forced_frame [of now ?m] by simp
  have pool_sd: "map (heap ?sd) (tokens ?sd) = map token_of_row (admin_rows (store ?m))"
    unfolding sd by (rule loadTokens_forced_pool)
  have "?s1 = ?sd \<or> ?s1 = loadTokens True now2 ?sd"
    by (simp add: loadTokens_def)
  then have pool: "map (heap ?s1) (tokens ?s1) = map token_of_row (admin_rows (store ?m))"
  proof
    assume "?s1 = ?sd"
    then show ?thesis using pool_sd by simp
  next
    assume l: "?s1 = loadTokens True now2 ?sd"
    show ?thesis unfolding l using loadTokens_forced_pool [of now2 ?sd] sst by simp
  qed
  have "heap ?s1 b \<in> set (map token_of_row (admin_rows (store ?m)))"
    using in_pool_obj [OF pool b] .
  then obtain r where r: "r \<in> set (admin_rows (store ?m))" "heap ?s1 b = token_of_row r"
    by auto
  then obtain r0 where r0: "r = save_row ?T r0" and en: "enabled r"
    using st by (auto simp: admin_rows_def)
  show ?thesis
  proof
    assume e: "dbId (heap ?s1 b) = dbId (heap s a)"
    then have "row_id r0 = dbId ?T"
      using r(2) r0 by (simp add: token_of_row_def save_row_def split: if_splits)
    then have "\<not> enabled r"
      using r0 by (simp add: save_row_def)
    then show False using en by simp
  qed
qed

lemma disableToken_other:
  assumes i: "dbId (heap s a) \<noteq> 0"
    and g: "getNextToken fetch now2 (disableToken now a s) = (Inr b, s')"
  shows "dbId (heap s' b) \<noteq> dbId (heap s a)"
proof -
  let ?sd = "disableToken now a s"
  let ?s1 = "loadTokens False now2 ?sd"
  from getNextToken_returns [OF g]
  have b: "b \<in> set (tokens ?s1)" and sh: "same_health ?s1 s'"
    by (simp_all add: availableTokens_def)
  have "dbId (heap s' b) = dbId (heap ?s1 b)"
    using sh by (simp add: same_health_def)
  then show ?thesis using disableToken_pool [OF i b] by simp
qed

text \<open>
  C4 (as amended). \<^verbatim>\<open>handleRequestError(e, c)\<close> runs at an instant \<open>now\<close> of the valid
  date range, at or after the epoch, and its nested \<^verbatim>\<open>getNextToken\<close> reads the clock at
  \<open>now2 \<ge> now\<close>. It follows the classification in order: status 429 or a message
  containing \<open>quota\<close> quarantines \<open>c\<close> until \<open>m\<close>, the first UTC midnight after \<open>now\<close>;
  otherwise status 403 or 400 disables \<open>c\<close> permanently; in both cases the caller gets
  the outcome of a fresh \<^verbatim>\<open>getNextToken\<close>: a credential of the pool that is eligible at
  \<open>now2\<close>, or the pool-exhausted error, or a refresh failure. After a disable the
  credential returned is never the object \<open>c\<close>, and it is a credential of another row
  when \<open>c\<close> has a database id. After a quarantine the same holds as long as the selection
  runs before \<open>m\<close>: the credential returned is not the object \<open>c\<close>, and it is a
  credential of another row when \<open>c\<close> has a database id and the pool holds no other
  object of \<open>c\<close>'s row. Every other error is thrown back unchanged with the state
  untouched.
\<close>

theorem handleRequestError_classification:
  assumes a: "a < nextAddr s" and now: "0 \<le> now" "now \<le> now2"
    and rng: "now + 86400000 \<le> max_time"
  shows "\<exists>m. nextUtcMidnight now = Some m
            \<and> now < m \<and> m \<le> now + 86400000 \<and> m mod 86400000 = 0
       \<and> (quota_error e \<longrightarrow>
            handleRequestError fetch now now2 e a s
              = getNextToken fetch now2 (disableTokenUntil a m s)
            \<and> disabledUntil (heap (snd (handleRequestError fetch now now2 e a s)) a) = Some m
            \<and> quotaExhausted (heap (snd (handleRequestError fetch now now2 e a s)) a)
            \<and> (\<forall>b. fst (handleRequestError fetch now now2 e a s) = Inr b \<and> now2 < m \<longrightarrow>
                 b \<noteq> a
                 \<and> (dbId (heap s a) \<noteq> 0
                      \<and> (\<forall>c\<in>set (tokens s). dbId (heap s c) = dbId (heap s a) \<longrightarrow> c = a) \<longrightarrow>
                    dbId (heap (snd (handleRequestError fetch now now2 e a s)) b)
                      \<noteq> dbId (heap s a))))
       \<and> (\<not> quota_error e \<and> (statusCode e = Some 403 \<or> statusCode e = Some 400) \<longrightarrow>
            handleRequestError fetch now now2 e a s
              = getNextToken fetch now2 (disableToken now a s)
            \<and> \<not> enable (heap (snd (handleRequestError fetch now now2 e a s)) a)
            \<and> disabledUntil (heap (snd (handleRequestError fetch now now2 e a s)) a) = None
            \<and> (\<forall>b. fst (handleRequestError fetch now now2 e a s) = Inr b \<longrightarrow>
                 b \<noteq> a
                 \<and> (dbId (heap s a) \<noteq> 0 \<longrightarrow>
                    dbId (heap (snd (handleRequestError fetch now now2 e a s)) b)
                      \<noteq> dbId (heap s a))))
       \<and> (quota_error e \<or> statusCode e = Some 403 \<or> statusCode e = Some 400 \<longrightarrow>
            (\<forall>b. fst (handleRequestError fetch now now2 e a s) = Inr b \<longrightarrow>
                 b \<in> set (tokens (snd (handleRequestError fetch now now2 e a s)))
                 \<and> eligible now2 (heap (snd (handleRequestError fetch now now2 e a s)) b))
            \<and> (\<forall>err. fst (handleRequestError fetch now now2 e a s) = Inl err \<longrightarrow>
                 PoolExhausted err
                 \<or> (\<exists>tok. fetch tok = Inl err
                       \<or> (\<exists>st txt. fetch tok = Inr (Response_fail st txt)
                             \<and> err = \<lparr>statusCode = Some st, message = Some txt\<rparr>))))
       \<and> (\<not> quota_error e \<and> statusCode e \<noteq> Some 403 \<and> statusCode e \<noteq> Some 400 \<longrightarrow>
            handleRequestError fetch now now2 e a s = (Inl e, s))"
proof -
  let ?m = "(now div 86400000 + 1) * 86400000"
  let ?H = "handleRequestError fetch now now2 e a s"
  let ?sq = "disableTokenUntil a ?m s"
  let ?sd = "disableToken now a s"
  note mb = nextUtcMidnight_in_range [OF now(1) rng]
  have mS: "nextUtcMidnight now = Some ?m" using mb by (rule conjunct1)
  have now2: "0 \<le> now2" using now by simp
  have q1: "disabledUntil (heap ?sq a) = Some ?m" "quotaExhausted (heap ?sq a)"
    "nextAddr ?sq = nextAddr s"
    by (simp_all add: disableTokenUntil_heap)
  have qa: "a < nextAddr ?sq" using a q1 by simp
  have qo: "old_health ?sq (snd (getNextToken fetch now2 ?sq))"
    by (rule getNextToken_old_health)
  have q2: "disabledUntil (heap (snd (getNextToken fetch now2 ?sq)) a) = Some ?m"
    "quotaExhausted (heap (snd (getNextToken fetch now2 ?sq)) a)"
    using qo q1 a by (simp_all add: old_health_def)
  note d1 = disableToken_heap [OF a, of now]
  have dn: "\<not> eligible now2 (heap ?sd a)"
    using d1 by (simp add: eligible_def)
  have da: "a < nextAddr ?sd" using d1 a by simp
  have "old_health ?sd (snd (getNextToken fetch now2 ?sd))"
    by (rule getNextToken_old_health)
  then have d2: "\<not> enable (heap (snd (getNextToken fetch now2 ?sd)) a)"
    "disabledUntil (heap (snd (getNextToken fetch now2 ?sd)) a) = None"
    using d1 da by (simp_all add: old_health_def)
  have hq: "?H = getNextToken fetch now2 ?sq" if "quota_error e"
    using that by (simp add: handleRequestError_def mS)
  have hd: "?H = getNextToken fetch now2 ?sd"
    if "\<not> quota_error e" "statusCode e = Some 403 \<or> statusCode e = Some 400"
    using that by (auto simp: handleRequestError_def)
  have el: "b \<in> set (tokens (snd (getNextToken fetch now2 s0)))
            \<and> eligible now2 (heap (snd (getNextToken fetch now2 s0)) b)"
    if "fst (getNextToken fetch now2 s0) = Inr b" for s0 b
  proof -
    have "getNextToken fetch now2 s0 = (Inr b, snd (getNextToken fetch now2 s0))"
      using that by (simp add: prod_eq_iff)
    then show ?thesis by (rule getNextToken_eligible)
  qed
  have A: "quota_error e \<longrightarrow>
            ?H = getNextToken fetch now2 ?sq
            \<and> disabledUntil (heap (snd ?H) a) = Some ?m
            \<and> quotaExhausted (heap (snd ?H) a)
            \<and> (\<forall>b. fst ?H = Inr b \<and> now2 < ?m \<longrightarrow>
                 b \<noteq> a
                 \<and> (dbId (heap s a) \<noteq> 0
                      \<and> (\<forall>c\<in>set (tokens s). dbId (heap s c) = dbId (heap s a) \<longrightarrow> c = a) \<longrightarrow>
                    dbId (heap (snd ?H) b) \<noteq> dbId (heap s a)))"
  proof
    assume q: "quota_error e"
    have r: "b \<noteq> a
          \<and> (dbId (heap s a) \<noteq> 0
               \<and> (\<forall>c\<in>set (tokens s). dbId (heap s c) = dbId (heap s a) \<longrightarrow> c = a) \<longrightarrow>
             dbId (heap (snd (getNextToken fetch now2 ?sq)) b) \<noteq> dbId (heap s a))"
      if f: "fst (getNextToken fetch now2 ?sq) = Inr b" and lt: "now2 < ?m" for b
    proof -
      have qn: "\<not> eligible now2 (heap ?sq a)"
        using lt now2 q1(1) by (intro quarantined_not_eligible [of now2 ?m]) simp_all
      have ba: "b \<noteq> a"
        using getNextToken_replacement [OF f qa qn] by simp
      have g: "getNextToken fetch now2 ?sq = (Inr b, snd (getNextToken fetch now2 ?sq))"
        using f by (simp add: prod_eq_iff)
      have "dbId (heap (snd (getNextToken fetch now2 ?sq)) b) \<noteq> dbId (heap s a)"
        if "dbId (heap s a) \<noteq> 0"
          and "\<forall>c\<in>set (tokens s). dbId (heap s c) = dbId (heap s a) \<longrightarrow> c = a"
        using disableTokenUntil_other [OF a that now2 lt g] .
      then show ?thesis using ba by blast
    qed
    show "?H = getNextToken fetch now2 ?sq
            \<and> disabledUntil (heap (snd ?H) a) = Some ?m
            \<and> quotaExhausted (heap (snd ?H) a)
            \<and> (\<forall>b. fst ?H = Inr b \<and> now2 < ?m \<longrightarrow>
                 b \<noteq> a
                 \<and> (dbId (heap s a) \<noteq> 0
                      \<and> (\<forall>c\<in>set (tokens s). dbId (heap s c) = dbId (heap s a) \<longrightarrow> c = a) \<longrightarrow>
                    dbId (heap (snd ?H) b) \<noteq> dbId (heap s a)))"
      unfolding hq [OF q] using q2 r by blast
  qed
  have B: "\<not> quota_error e \<and> (statusCode e = Some 403 \<or> statusCode e = Some 400) \<longrightarrow>
            ?H = getNextToken fetch now2 ?sd
            \<and> \<not> enable (heap (snd ?H) a)
            \<and> disabledUntil (heap (snd ?H) a) = None
            \<and> (\<forall>b. fst ?H = Inr b \<longrightarrow>
                 b \<noteq> a
                 \<and> (dbId (heap s a) \<noteq> 0 \<longrightarrow> dbId (heap (snd ?H) b) \<noteq> dbId (heap s a)))"
  proof
    assume c: "\<not> quota_error e \<and> (statusCode e = Some 403 \<or> statusCode e = Some 400)"
    have r: "b \<noteq> a
          \<and> (dbId (heap s a) \<noteq> 0 \<longrightarrow>
             dbId (heap (snd (getNextToken fetch now2 ?sd)) b) \<noteq> dbId (heap s a))"
      if f: "fst (getNextToken fetch now2 ?sd) = Inr b" for b
    proof -
      have ba: "b \<noteq> a"
        using getNextToken_replacement [OF f da dn] by simp
      have g: "getNextToken fetch now2 ?sd = (Inr b, snd (getNextToken fetch now2 ?sd))"
        using f by (simp add: prod_eq_iff)
      have "dbId (heap (snd (getNextToken fetch now2 ?sd)) b) \<noteq> dbId (heap s a)"
        if "dbId (heap s a) \<noteq> 0"
        using disableToken_other [OF that g] .
      then show ?thesis using ba by blast
    qed
    show "?H = getNextToken fetch now2 ?sd
            \<and> \<not> enable (heap (snd ?H) a)
            \<and> disabledUntil (heap (snd ?H) a) = None
            \<and> (\<forall>b. fst ?H = Inr b \<longrightarrow>
                 b \<noteq> a
                 \<and> (dbId (heap s a) \<noteq> 0 \<longrightarrow> dbId (heap (snd ?H) b) \<noteq> dbId (heap s a)))"
      unfolding hd [OF conjunct1 [OF c] conjunct2 [OF c]] using d2 r by blast
  qed
  have C: "quota_error e \<or> statusCode e = Some 403 \<or> statusCode e = Some 400 \<longrightarrow>
            (\<forall>b. fst ?H = Inr b \<longrightarrow>
                 b \<in> set (tokens (snd ?H)) \<and> eligible now2 (heap (snd ?H) b))
            \<and> (\<forall>err. fst ?H = Inl err \<longrightarrow>
                 PoolExhausted err
                 \<or> (\<exists>tok. fetch tok = Inl err
                       \<or> (\<exists>st txt. fetch tok = Inr (Response_fail st txt)
                             \<and> err = \<lparr>statusCode = Some st, message = Some txt\<rparr>)))"
  proof (cases "quota_error e")
    case True
    show ?thesis
      unfolding hq [OF True] using el getNextToken_errors by blast
  next
    case False
    show ?thesis
    proof (cases "statusCode e = Some 403 \<or> statusCode e = Some 400")
      case True
      show ?thesis
        unfolding hd [OF False True] using el getNextToken_errors by blast
    next
      case False
      with \<open>\<not> quota_error e\<close> show ?thesis by simp
    qed
  qed
  have D: "\<not> quota_error e \<and> statusCode e \<noteq> Some 403 \<and> statusCode e \<noteq> Some 400 \<longrightarrow>
            ?H = (Inl e, s)"
    by (simp add: handleRequestError_def)
  have M: "nextUtcMidnight now = Some ?m \<and> now < ?m \<and> ?m \<le> now + 86400000
           \<and> ?m mod 86400000 = 0"
    using mb .
  show ?thesis
    by (rule exI [of _ ?m]) (use M A B C D in blast)
qed

theorem handleRequestError_classification_witness:
  "0 < nextAddr (pool2 0) \<and> quota_error error_429
   \<and> nextUtcMidnight 1000001 = Some 86400000
   \<and> fst (handleRequestError never_fetch 1000001 1000002 error_429 0 (pool2 0)) = Inr 1
   \<and> disabledUntil
        (heap (snd (handleRequestError never_fetch 1000001 1000002 error_429 0 (pool2 0))) 0)
       = Some 86400000
   \<and> dbId (heap (snd (handleRequestError never_fetch 1000001 1000002 error_429 0 (pool2 0))) 1)
       \<noteq> dbId (heap (pool2 0) 0)"
proof -
  let ?H = "handleRequestError never_fetch 1000001 1000002 error_429 0 (pool2 0)"
  have a: "0 < nextAddr (pool2 0)" by (simp add: pool2_def)
  have q: "quota_error error_429" by (simp add: quota_error_def error_429_def)
  have m: "nextUtcMidnight 1000001 = Some 86400000"
    by (simp add: nextUtcMidnight_def max_time_def)
  have f: "fst ?H = Inr 1"
    by (simp add: handleRequestError_def q disableTokenUntil_def
      saveToDatabase_def pool2_def example_token_def getNextToken_def Let_def loadTokens_def
      loadInterval_def availableTokens_def eligible_def isTokenDisabledByQuota_def
      nextUtcMidnight_def max_time_def isExpired_def recordUsage_def advance_def)
  have n: "(0::int) \<le> 1000001" "(1000001::int) \<le> 1000002" by simp_all
  have r: "(1000001::int) + 86400000 \<le> max_time" by (simp add: max_time_def)
  have i: "dbId (heap (pool2 0) 0) \<noteq> 0" by (simp add: pool2_def example_token_def)
  have u: "\<forall>c\<in>set (tokens (pool2 0)).
             dbId (heap (pool2 0) c) = dbId (heap (pool2 0) 0) \<longrightarrow> c = 0"
    by (simp add: pool2_def example_token_def)
  from handleRequestError_classification [OF a n r, where e = error_429 and fetch = never_fetch]
  obtain k where k: "nextUtcMidnight 1000001 = Some k"
    and c: "quota_error error_429 \<longrightarrow>
            disabledUntil (heap (snd ?H) 0) = Some k
            \<and> (\<forall>b. fst ?H = Inr b \<and> 1000002 < k \<longrightarrow>
                 b \<noteq> 0
                 \<and> (dbId (heap (pool2 0) 0) \<noteq> 0
                      \<and> (\<forall>c\<in>set (tokens (pool2 0)).
                            dbId (heap (pool2 0) c) = dbId (heap (pool2 0) 0) \<longrightarrow> c = 0) \<longrightarrow>
                    dbId (heap (snd ?H) b) \<noteq> dbId (heap (pool2 0) 0)))"
    by blast
  have ke: "k = 86400000" using k m by simp
  have d: "disabledUntil (heap (snd ?H) 0) = Some 86400000"
    using c q ke by blast
  have lt: "(1000002::int) < k" using ke by simp
  have o: "dbId (heap (snd ?H) 1) \<noteq> dbId (heap (pool2 0) 0)"
    using c q f lt i u by blast
  show ?thesis using a q m f d o by blast
qed

text \<open>
  C4 as stated fails when the failing credential was the last eligible one: the caller
  then receives the pool-exhausted error, not a replacement credential.
\<close>

theorem handleRequestError_exhausted:
  "quota_error error_429
   \<and> fst (handleRequestError never_fetch 1000001 1000002 error_429 0 pool1)
       = Inl NoEnabledTokensAvailable"
  by (simp add: handleRequestError_def quota_error_def error_429_def disableTokenUntil_def
      saveToDatabase_def pool1_def example_token_def getNextToken_def Let_def loadTokens_def
      loadInterval_def availableTokens_def eligible_def isTokenDisabledByQuota_def
      nextUtcMidnight_def max_time_def)

text \<open>
  The conditions on the replacement are needed. When \<open>c\<close> is a stale object that predates
  a reload, the quarantine marks \<open>c\<close> and its row, but the pool's own object of that row
  stays eligible until the next reload and is handed out. When the selection runs at
  or after the midnight just computed, the quarantine is already over and \<open>c\<close> itself is
  handed out. And past the last day of the date range the midnight is NaN, which
  quarantines nothing.
\<close>

lemma handleRequestError_stale_object:
  "tokens (loadTokens True 1000000 (pool2 0)) = [2, 3]
   \<and> fst (handleRequestError never_fetch 1000001 1000002 error_429 0
            (loadTokens True 1000000 (pool2 0))) = Inr 2
   \<and> dbId (heap (snd (handleRequestError never_fetch 1000001 1000002 error_429 0
                        (loadTokens True 1000000 (pool2 0)))) 2)
       = dbId (heap (loadTokens True 1000000 (pool2 0)) 0)"
  by (simp add: handleRequestError_def quota_error_def error_429_def disableTokenUntil_def
      saveToDatabase_def pool2_def example_token_def example_row_def empty_db_def
      getNextToken_def Let_def loadTokens_def admin_rows_def token_of_row_def alloc_def
      loadInterval_def availableTokens_def eligible_def isTokenDisabledByQuota_def
      nextUtcMidnight_def max_time_def isExpired_def recordUsage_def advance_def save_row_def)

lemma handleRequestError_midnight_crossing:
  "fst (handleRequestError always_fetch 86399999 86400000 error_429 0
          (pool1\<lparr>lastLoadTime := 86399000\<rparr>)) = Inr 0"
  by (simp add: handleRequestError_def quota_error_def error_429_def disableTokenUntil_def
      saveToDatabase_def pool1_def example_token_def example_row_def empty_db_def
      getNextToken_def Let_def loadTokens_def
      loadInterval_def availableTokens_def eligible_def isTokenDisabledByQuota_def
      nextUtcMidnight_def max_time_def isExpired_def recordUsage_def advance_def
      refreshToken_def always_fetch_def)

lemma handleRequestError_beyond_date_range:
  "nextUtcMidnight max_time = None
   \<and> fst (handleRequestError always_fetch max_time max_time error_429 0
            (pool1\<lparr>lastLoadTime := max_time\<rparr>)) = Inr 0"
  by (simp add: handleRequestError_def quota_error_def error_429_def disableTokenUntil_def
      saveToDatabase_def pool1_def example_token_def example_row_def empty_db_def
      getNextToken_def Let_def loadTokens_def
      loadInterval_def availableTokens_def eligible_def isTokenDisabledByQuota_def
      nextUtcMidnight_def max_time_def isExpired_def recordUsage_def advance_def
      refreshToken_def always_fetch_def)

section \<open>Properties of the abuse guard\<close>

text \<open>
  C6. The escalation schedule is never applied beyond its first entry. The stored ban
  record has no counter, so the count read back from an existing record is always
  undefined and every ban, first or repeated, is issued with count 1 for one day.
\<close>

theorem banUserFromSharing_never_escalates:
  "fst (banUserFromSharing now uid rsn d)
     = \<lparr>banCount = 1, banUntil = now + 86400000, durationDays = 1\<rparr>"
  by (cases "share_bans d uid")
    (simp_all add: banUserFromSharing_def Let_def row_banCount_def BAN_DURATIONS_def
      day_ms_def Math_round_div_def)

theorem banUserFromSharing_second_offense:
  "share_bans ban_db ''user_b'' \<noteq> None
   \<and> durationDays (fst (banUserFromSharing 3000000 ''user_b'' Abuse_of_shared_resources ban_db)) = 1
   \<and> banCount (fst (banUserFromSharing 3000000 ''user_b'' Abuse_of_shared_resources ban_db)) = 1"
  using banUserFromSharing_never_escalates [of 3000000 "''user_b''" Abuse_of_shared_resources ban_db]
  by (simp add: ban_db_def)

lemma getRandomSharedToken_not_banned:
  assumes "truthy callerId = Some c" and "isUserBanned now c d = (Not_banned, d0)"
  shows "getRandomSharedToken z now rnd callerId d
         = getRandomSharedToken z now rnd callerId (d0\<lparr>share_bans := (share_bans d0)(c := None)\<rparr>)"
proof -
  let ?d' = "d0\<lparr>share_bans := (share_bans d0)(c := None)\<rparr>"
  have e: "?d' = d0"
  proof (cases "share_bans d c")
    case None
    then have "d0 = d" using assms(2) by (simp add: isUserBanned_def)
    moreover have "(share_bans d)(c := None) = share_bans d"
      using None by (simp add: fun_upd_idem)
    ultimately show ?thesis by simp
  next
    case (Some ban)
    then have "d0 = d\<lparr>share_bans := (share_bans d)(c := None)\<rparr>"
      using assms(2) by (simp add: isUserBanned_def split: if_splits)
    then show ?thesis by simp
  qed
  have "isUserBanned now c ?d' = (Not_banned, ?d')"
    by (simp add: isUserBanned_def)
  then show ?thesis
    using assms e by (simp add: getRandomSharedToken_def)
qed

text \<open>
  C7 (as amended). For a borrower with a stored ban record whose \<open>ban-until\<close> is a
  non-zero instant \<open>u\<close>: once \<open>now > u\<close>, \<^verbatim>\<open>isUserBanned\<close> reports not banned and deletes
  the record, and shared-credential selection proceeds exactly as if the record were
  absent; while \<open>now \<le> u\<close> it reports banned with the stored reason and remaining time
  \<open>u - now\<close>, and selection returns the banned result without touching the store.
\<close>

theorem ban_expiry:
  assumes "share_bans d uid = Some ban" and "ban_until ban = Some u" and "u \<noteq> 0"
    and "uid \<noteq> []"
  shows "(u < now \<longrightarrow>
            isUserBanned now uid d
              = (Not_banned, d\<lparr>share_bans := (share_bans d)(uid := None)\<rparr>)
            \<and> getRandomSharedToken z now rnd (Some uid) d
              = getRandomSharedToken z now rnd (Some uid)
                  (d\<lparr>share_bans := (share_bans d)(uid := None)\<rparr>)
            \<and> (\<forall>bu rt rs. fst (getRandomSharedToken z now rnd (Some uid) d)
                             \<noteq> Shared_banned bu rt rs))
       \<and> (now \<le> u \<longrightarrow>
            isUserBanned now uid d = (Banned (Some u) 1 (reason ban) (u - now), d)
            \<and> getRandomSharedToken z now rnd (Some uid) d
              = (Shared_banned (Some u) (u - now) (reason ban), d))"
proof -
  let ?d' = "d\<lparr>share_bans := (share_bans d)(uid := None)\<rparr>"
  have t: "truthy (Some uid) = Some uid"
    using assms(4) by (simp add: truthy_def)
  have A: "isUserBanned now uid d = (Not_banned, ?d')" if "u < now"
    using assms that by (simp add: isUserBanned_def)
  have B: "getRandomSharedToken z now rnd (Some uid) d
              = getRandomSharedToken z now rnd (Some uid) ?d'" if "u < now"
    using getRandomSharedToken_not_banned [OF t A [OF that], of z rnd] by simp
  have n: "isUserBanned now uid ?d' = (Not_banned, ?d')"
    by (simp add: isUserBanned_def)
  have C: "fst (getRandomSharedToken z now rnd (Some uid) d) \<noteq> Shared_banned bu rt rs"
    if "u < now" for bu rt rs
    unfolding B [OF that]
    by (simp add: getRandomSharedToken_def t n Let_def split: prod.splits)
  have D: "isUserBanned now uid d = (Banned (Some u) 1 (reason ban) (u - now), d)" if "now \<le> u"
    using assms that by (simp add: isUserBanned_def)
  have E: "getRandomSharedToken z now rnd (Some uid) d
              = (Shared_banned (Some u) (u - now) (reason ban), d)" if "now \<le> u"
    by (simp add: getRandomSharedToken_def t D [OF that])
  show ?thesis using A B C D E by blast
qed

theorem ban_expiry_witness:
  "share_bans ban_db ''user_b'' \<noteq> None
   \<and> fst (isUserBanned 2000001 ''user_b'' ban_db) = Not_banned
   \<and> share_bans (snd (isUserBanned 2000001 ''user_b'' ban_db)) ''user_b'' = None
   \<and> fst (isUserBanned 1999999 ''user_b'' ban_db)
       = Banned (Some 2000000) 1 (Some Abuse_of_shared_resources) 1"
proof -
  have b: "share_bans ban_db ''user_b''
      = Some \<lparr>ban_until = Some 2000000, reason = Some Abuse_of_shared_resources, created = 1000000\<rparr>"
    by (simp add: ban_db_def)
  have u: "ban_until \<lparr>ban_until = Some 2000000, reason = Some Abuse_of_shared_resources,
      created = 1000000\<rparr> = Some 2000000" by simp
  have nz: "(2000000::int) \<noteq> 0" "''user_b'' \<noteq> []" by simp_all
  note th = ban_expiry [OF b u nz]
  have 1: "isUserBanned 2000001 ''user_b'' ban_db
      = (Not_banned, ban_db\<lparr>share_bans := (share_bans ban_db)(''user_b'' := None)\<rparr>)"
    using th [of 2000001] by simp
  have 2: "isUserBanned 1999999 ''user_b'' ban_db
      = (Banned (Some 2000000) 1 (Some Abuse_of_shared_resources) 1, ban_db)"
    using th [of 1999999] by simp
  show ?thesis using b 1 2 by simp
qed

text \<open>
  C7 as stated fails at the boundary \<open>now = ban-until\<close>: the record is kept and the
  borrower is reported banned with remaining time 0.
\<close>

theorem ban_boundary_still_banned:
  "fst (isUserBanned 2000000 ''user_b'' ban_db)
     = Banned (Some 2000000) 1 (Some Abuse_of_shared_resources) 0
   \<and> share_bans (snd (isUserBanned 2000000 ''user_b'' ban_db)) ''user_b'' \<noteq> None"
  by (simp add: isUserBanned_def ban_db_def)

text \<open>
  C10 (as amended). \<^verbatim>\<open>recordShareUsage(borrowerId)\<close> adds the sample (borrower, now)
  unless it is already stored, then deletes every sample older than 30 days, whoever it
  belongs to. So each other borrower keeps exactly their samples that are not older
  than 30 days, and no other table changes.
\<close>

theorem recordShareUsage_prune:
  "share_usage (snd (recordShareUsage z now uid d))
     = filter (\<lambda>(u, ts). now - 30 * day_ms \<le> ts)
         (if (uid, now) \<in> set (share_usage d) then share_usage d
          else share_usage d @ [(uid, now)])
   \<and> (uid, now) \<in> set (share_usage (snd (recordShareUsage z now uid d)))
   \<and> (\<forall>v. v \<noteq> uid \<longrightarrow>
         filter (\<lambda>(u, ts). u = v) (share_usage (snd (recordShareUsage z now uid d)))
           = filter (\<lambda>(u, ts). now - 30 * day_ms \<le> ts)
               (filter (\<lambda>(u, ts). u = v) (share_usage d)))
   \<and> google_tokens (snd (recordShareUsage z now uid d)) = google_tokens d
   \<and> users (snd (recordShareUsage z now uid d)) = users d
   \<and> share_bans (snd (recordShareUsage z now uid d)) = share_bans d
   \<and> share_blacklist (snd (recordShareUsage z now uid d)) = share_blacklist d"
proof -
  have f: "(\<lambda>(u, ts). \<not> ts < now - 30 * day_ms) = (\<lambda>(u :: string, ts). now - 30 * day_ms \<le> ts)"
    by (auto simp: fun_eq_iff)
  have 1: "share_usage (snd (recordShareUsage z now uid d))
     = filter (\<lambda>(u, ts). now - 30 * day_ms \<le> ts)
         (if (uid, now) \<in> set (share_usage d) then share_usage d
          else share_usage d @ [(uid, now)])"
    by (simp add: recordShareUsage_def Let_def f)
  have 2: "(uid, now) \<in> set (share_usage (snd (recordShareUsage z now uid d)))"
    unfolding 1 by (simp add: day_ms_def)
  have 3: "filter (\<lambda>(u, ts). u = v) (share_usage (snd (recordShareUsage z now uid d)))
           = filter (\<lambda>(u, ts). now - 30 * day_ms \<le> ts)
               (filter (\<lambda>(u, ts). u = v) (share_usage d))" if "v \<noteq> uid" for v
    unfolding 1 using that by (auto simp: filter_filter conj_commute case_prod_unfold intro!: filter_cong)
  show ?thesis using 1 2 3
    by (simp add: recordShareUsage_def Let_def)
qed

theorem recordShareUsage_prune_witness:
  "''user_other'' \<noteq> ''user_b''
   \<and> share_usage (snd (recordShareUsage example_tz 1000 ''user_b'' old_usage_db))
      = [(''user_other'', 0), (''user_b'', 1000)]"
  using recordShareUsage_prune [of example_tz 1000 "''user_b''" old_usage_db]
  by (simp add: old_usage_db_def day_ms_def empty_db_def)

text \<open>
  C10 as stated fails: recording a sample for one borrower removes another borrower's
  sample that is older than 30 days.
\<close>

theorem recordShareUsage_deletes_others:
  "share_usage old_usage_db = [(''user_other'', 0)]
   \<and> share_usage (snd (recordShareUsage example_tz 2678400000 ''user_b'' old_usage_db))
      = [(''user_b'', 2678400000)]"
  by (simp add: recordShareUsage_def Let_def old_usage_db_def day_ms_def empty_db_def)

lemma int_le_div_iff:
  fixes a b c :: int
  assumes "0 < b"
  shows "(c \<le> a div b) = (c * b \<le> a)"
proof
  assume "c \<le> a div b"
  then have "c * b \<le> a div b * b"
    using assms by (simp add: mult_right_mono)
  also have "\<dots> \<le> a"
  proof -
    have "a div b * b + a mod b = a" by simp
    moreover have "0 \<le> a mod b" using assms by simp
    ultimately show ?thesis by linarith
  qed
  finally show "c * b \<le> a" .
next
  assume "c * b \<le> a"
  then have "(c * b) div b \<le> a div b"
    using assms by (rule zdiv_mono1)
  then show "c \<le> a div b"
    using assms by simp
qed

lemma bump_sum: "sum_list (map snd (bump k acc)) = sum_list (map snd acc) + 1"
  by (induction k acc rule: bump.induct) auto

lemma bump_keys: "fst ` set (bump k acc) = insert k (fst ` set acc)"
  by (induction k acc rule: bump.induct) auto

lemma bump_distinct: "distinct (map fst acc) \<Longrightarrow> distinct (map fst (bump k acc))"
  by (induction k acc rule: bump.induct) (auto simp: bump_keys)

lemma fold_bump:
  "sum_list (map snd (fold (\<lambda>ts acc. bump (g ts) acc) xs acc))
     = sum_list (map snd acc) + int (length xs)
   \<and> fst ` set (fold (\<lambda>ts acc. bump (g ts) acc) xs acc) = g ` set xs \<union> fst ` set acc
   \<and> (distinct (map fst acc) \<longrightarrow> distinct (map fst (fold (\<lambda>ts acc. bump (g ts) acc) xs acc)))"
proof (induction xs arbitrary: acc)
  case Nil
  then show ?case by simp
next
  case (Cons x xs)
  show ?case
    using Cons.IH [of "bump (g x) acc"]
    by (simp add: bump_sum bump_keys bump_distinct)
qed

lemma getUserAverageUsage_eq:
  "getUserAverageUsage z uid d
     = (if samples_of d uid = [] then 0
        else Math_round_div (int (length (samples_of d uid))) (int (card (sample_days z d uid))))"
proof (cases "samples_of d uid = []")
  case True
  then show ?thesis
    by (simp add: getUserAverageUsage_def samples_of_def)
next
  case False
  let ?xs = "samples_of d uid"
  let ?du = "fold (\<lambda>ts acc. bump (toDateString z ts) acc) ?xs []"
  from fold_bump [of "toDateString z" ?xs "[]"]
  have s: "sum_list (map snd ?du) = int (length ?xs)"
    and k: "fst ` set ?du = sample_days z d uid"
    and dist: "distinct (map fst ?du)"
    by (simp_all add: sample_days_def)
  have "length (map fst ?du) = card (sample_days z d uid)"
    using distinct_card [OF dist] k by simp
  then have len: "length ?du = card (sample_days z d uid)" by simp
  have "sample_days z d uid \<noteq> {}"
    using False by (simp add: sample_days_def)
  then have "card (sample_days z d uid) \<noteq> 0"
    by (simp add: sample_days_def)
  then have ne: "?du \<noteq> []" using len by auto
  show ?thesis
    using False ne s len
    by (simp add: getUserAverageUsage_def Let_def samples_of_def [symmetric])
qed

lemma sample_days_pos: "samples_of d uid \<noteq> [] \<Longrightarrow> 0 < card (sample_days z d uid)"
  by (simp add: sample_days_def card_gt_0_iff)

lemma ban_iff:
  "is_banned (fst (checkAndBanAbuser z now uid d)) = (USAGE_THRESHOLD < getUserAverageUsage z uid d)"
  by (simp add: checkAndBanAbuser_def Let_def split: prod.splits)

text \<open>
  C8 (as amended). \<^verbatim>\<open>getUserAverageUsage\<close> returns 0 without samples and otherwise the
  number of the borrower's samples divided by the number of distinct calendar days
  holding one, rounded to the nearest integer (halves up). \<^verbatim>\<open>checkAndBanAbuser\<close> bans
  exactly when this rounded value exceeds 50, that is when twice the sample count is at
  least 101 times the day count. An exact average of 51 is banned, one of 50 is not.
\<close>

theorem abuse_threshold:
  "getUserAverageUsage z uid d
     = (if samples_of d uid = [] then 0
        else (2 * int (length (samples_of d uid)) + int (card (sample_days z d uid)))
               div (2 * int (card (sample_days z d uid))))
   \<and> is_banned (fst (checkAndBanAbuser z now uid d))
       = (50 < getUserAverageUsage z uid d)
   \<and> is_banned (fst (checkAndBanAbuser z now uid d))
       = (samples_of d uid \<noteq> []
          \<and> 101 * int (card (sample_days z d uid)) \<le> 2 * int (length (samples_of d uid)))
   \<and> (samples_of d uid \<noteq> []
        \<and> int (length (samples_of d uid)) = 51 * int (card (sample_days z d uid))
      \<longrightarrow> is_banned (fst (checkAndBanAbuser z now uid d)))
   \<and> (int (length (samples_of d uid)) = 50 * int (card (sample_days z d uid))
      \<longrightarrow> \<not> is_banned (fst (checkAndBanAbuser z now uid d)))"
proof -
  let ?n = "int (length (samples_of d uid))"
  let ?k = "int (card (sample_days z d uid))"
  have A: "getUserAverageUsage z uid d
     = (if samples_of d uid = [] then 0 else (2 * ?n + ?k) div (2 * ?k))"
    by (simp add: getUserAverageUsage_eq Math_round_div_def)
  have B: "is_banned (fst (checkAndBanAbuser z now uid d)) = (50 < getUserAverageUsage z uid d)"
    by (simp add: ban_iff USAGE_THRESHOLD_def)
  have C: "is_banned (fst (checkAndBanAbuser z now uid d))
       = (samples_of d uid \<noteq> [] \<and> 101 * ?k \<le> 2 * ?n)"
  proof (cases "samples_of d uid = []")
    case True
    then show ?thesis using A B by simp
  next
    case False
    then have k: "0 < 2 * ?k" using sample_days_pos [of d uid z] by simp
    have "(50 < (2 * ?n + ?k) div (2 * ?k)) = (51 \<le> (2 * ?n + ?k) div (2 * ?k))"
      by linarith
    also have "\<dots> = (51 * (2 * ?k) \<le> 2 * ?n + ?k)"
      by (rule int_le_div_iff [OF k])
    also have "\<dots> = (101 * ?k \<le> 2 * ?n)"
      by linarith
    finally show ?thesis using A B False by simp
  qed
  have D: "samples_of d uid \<noteq> [] \<and> ?n = 51 * ?k \<longrightarrow> is_banned (fst (checkAndBanAbuser z now uid d))"
    using C by simp
  have E: "?n = 50 * ?k \<longrightarrow> \<not> is_banned (fst (checkAndBanAbuser z now uid d))"
  proof (cases "samples_of d uid = []")
    case True
    then show ?thesis using C by simp
  next
    case False
    then have "0 < ?k" using sample_days_pos [of d uid z] by simp
    then show ?thesis using C by auto
  qed
  show ?thesis using A B C D E by blast
qed


theorem abuse_threshold_witness:
  "samples_of light_usage_db ''user_b'' \<noteq> []
   \<and> getUserAverageUsage example_tz ''user_b'' light_usage_db = 1
   \<and> \<not> is_banned (fst (checkAndBanAbuser example_tz 1000 ''user_b'' light_usage_db))"
proof -
  have s: "samples_of light_usage_db ''user_b'' = [5, 86400005]"
    by (simp add: samples_of_def light_usage_db_def empty_db_def)
  have d: "sample_days example_tz light_usage_db ''user_b'' = {''Thu Jan 01 1970'', ''Fri Jan 02 1970''}"
    by (auto simp: sample_days_def s example_tz_def)
  have k: "card (sample_days example_tz light_usage_db ''user_b'') = 2"
    by (simp add: d)
  from abuse_threshold [of example_tz "''user_b''" light_usage_db 1000]
  show ?thesis
    by (simp add: s k)
qed

text \<open>
  C8 as stated fails between 50 and 50.5: 151 samples over 3 days average more than 50,
  the rounded value is 50, and the borrower is not banned.
\<close>

lemma samples_heavy_eq:
  "samples_of heavy_usage_db ''user_b''
     = map int [0 ..< 51] @ map (\<lambda>i. 86400000 + int i) [0 ..< 51]
       @ map (\<lambda>i. 172800000 + int i) [0 ..< 49]"
  by (simp add: samples_of_def heavy_usage_db_def empty_db_def comp_def)

lemma image_const: "S \<noteq> {} \<Longrightarrow> (\<And>x. x \<in> S \<Longrightarrow> f x = c) \<Longrightarrow> f ` S = {c}"
  by auto

lemma days_heavy:
  "sample_days example_tz heavy_usage_db ''user_b''
     = {''Thu Jan 01 1970'', ''Fri Jan 02 1970'', ''Sat Jan 03 1970''}"
proof -
  have 1: "toDateString example_tz ` int ` {0 ..< 51} = {''Thu Jan 01 1970''}"
    by (rule image_const) (auto simp: example_tz_def)
  have 2: "toDateString example_tz ` (\<lambda>i. 86400000 + int i) ` {0 ..< 51} = {''Fri Jan 02 1970''}"
    by (rule image_const) (auto simp: example_tz_def)
  have 3: "toDateString example_tz ` (\<lambda>i. 172800000 + int i) ` {0 ..< 49} = {''Sat Jan 03 1970''}"
    by (rule image_const) (auto simp: example_tz_def)
  have "sample_days example_tz heavy_usage_db ''user_b''
      = toDateString example_tz ` int ` {0 ..< 51}
        \<union> toDateString example_tz ` (\<lambda>i. 86400000 + int i) ` {0 ..< 51}
        \<union> toDateString example_tz ` (\<lambda>i. 172800000 + int i) ` {0 ..< 49}"
    unfolding sample_days_def samples_heavy_eq by (simp add: image_Un Un_assoc)
  then show ?thesis
    unfolding 1 2 3 by auto
qed

theorem average_above_50_not_banned:
  "length (samples_of heavy_usage_db ''user_b'') = 151
   \<and> card (sample_days example_tz heavy_usage_db ''user_b'') = 3
   \<and> (50::int) * 3 < 151
   \<and> fst (checkAndBanAbuser example_tz 1000 ''user_b'' heavy_usage_db) = Check_clear 50"
proof -
  have n: "length (samples_of heavy_usage_db ''user_b'') = 151"
    by (simp add: samples_heavy_eq)
  have k: "card (sample_days example_tz heavy_usage_db ''user_b'') = 3"
    by (simp add: days_heavy)
  have ne: "samples_of heavy_usage_db ''user_b'' \<noteq> []"
    using n by auto
  have "getUserAverageUsage example_tz ''user_b'' heavy_usage_db = 50"
    by (simp add: getUserAverageUsage_eq ne n k Math_round_div_def)
  then show ?thesis
    using n k by (simp add: checkAndBanAbuser_def USAGE_THRESHOLD_def)
qed

section \<open>Properties of the sharing broker\<close>

lemma findIndex_found:
  assumes "\<exists>x\<in>set xs. P x"
  shows "0 \<le> findIndex P xs \<and> findIndex P xs < int (length xs) \<and> P (xs ! nat (findIndex P xs))"
  using assms
proof (induction xs)
  case Nil
  then show ?case by simp
next
  case (Cons x xs)
  show ?case
  proof (cases "P x")
    case True
    then show ?thesis by simp
  next
    case False
    define fi where "fi = findIndex P xs"
    from Cons.prems False have "\<exists>x\<in>set xs. P x" by simp
    from Cons.IH [OF this]
    have ih: "0 \<le> fi" "fi < int (length xs)" "P (xs ! nat fi)"
      by (simp_all add: fi_def)
    have f: "findIndex P (x # xs) = fi + 1"
      using False ih(1) by (simp add: fi_def [symmetric] Let_def)
    have n: "nat (fi + 1) = Suc (nat fi)"
      using ih(1) by linarith
    show ?thesis
      unfolding f n using ih by simp
  qed
qed

lemma findIndex_nth:
  assumes "x \<in> set xs"
  shows "xs ! nat (findIndex (\<lambda>i. i = x) xs) = x"
proof -
  have "\<exists>y\<in>set xs. y = x" using assms by blast
  from findIndex_found [of xs "\<lambda>i. i = x", OF this] show ?thesis by blast
qed

lemma findIndex_eq_inj:
  assumes "x \<in> set xs" and "y \<in> set xs"
    and "findIndex (\<lambda>i. i = x) xs = findIndex (\<lambda>i. i = y) xs"
  shows "x = y"
  using findIndex_nth [OF assms(1)] findIndex_nth [OF assms(2)] assms(3) by metis

lemma user_token_ids_keys:
  "user_token_ids d uid = sort (map fst (filter (\<lambda>k. snd k = Some uid) (row_keys d)))"
  by (simp add: user_token_ids_def row_keys_def filter_map comp_def)

lemma same_keys_ids: "row_keys d' = row_keys d \<Longrightarrow> user_token_ids d' uid = user_token_ids d uid"
  by (simp add: user_token_ids_keys)

lemma same_keys_index:
  "row_keys d' = row_keys d \<Longrightarrow> row_id t' = row_id t \<Longrightarrow> tokenIndexOf d' t' u = tokenIndexOf d t u"
  using same_keys_ids [of d' d "u_id u"] by (simp add: tokenIndexOf_def)

lemma same_keys_passes:
  "row_keys d' = row_keys d \<Longrightarrow> share_blacklist d' = share_blacklist d \<Longrightarrow>
   passes caller d' p = passes caller d p"
  using same_keys_index [of d' d "fst p" "fst p" "snd p"]
  by (simp add: passes_def isUserBlacklisted_def split: option.splits)

lemma set_user_token_ids:
  "set (user_token_ids d uid) = row_id ` {r \<in> set (google_tokens d). user_id r = Some uid}"
  by (auto simp: user_token_ids_def)

lemma reset_in_db_frame:
  "row_keys (reset_in_db today token d) = row_keys d
   \<and> share_blacklist (reset_in_db today token d) = share_blacklist d
   \<and> users (reset_in_db today token d) = users d
   \<and> share_bans (reset_in_db today token d) = share_bans d
   \<and> share_usage (reset_in_db today token d) = share_usage d"
  by (simp add: reset_in_db_def row_keys_def reset_usage_def comp_def)

lemma reset_in_db_rows:
  "google_tokens (reset_in_db today token d)
     = map (reset_set today (stale_ids today [token])) (google_tokens d)"
  by (auto simp: reset_in_db_def reset_set_def reset_usage_def stale_ids_def intro!: map_idI [symmetric])

lemma reset_set_compose:
  "reset_set today R (reset_set today R' r) = reset_set today (R' \<union> R) r"
  by (simp add: reset_set_def)

lemma fresh_copy_fields:
  "row_id (fresh_copy today t) = row_id t \<and> user_id (fresh_copy today t) = user_id t
   \<and> daily_limit (fresh_copy today t) = daily_limit t
   \<and> last_reset_date (fresh_copy today t) = today
   \<and> is_shared (fresh_copy today t) = is_shared t \<and> enabled (fresh_copy today t) = enabled t
   \<and> fresh_copy today (fresh_copy today t) = fresh_copy today t"
  by (simp add: fresh_copy_def)

text \<open>The loops, as maps over the snapshot.\<close>

lemma available_loop_eq:
  assumes "row_keys d = row_keys d0" and "share_blacklist d = share_blacklist d0"
  shows "fst (available_loop caller today S d)
           = filter (\<lambda>t. usage_today t < daily_limit t)
               (map (fresh_copy today) (map fst (filter (passes caller d0) S)))
       \<and> google_tokens (snd (available_loop caller today S d))
           = map (reset_set today (stale_ids today (map fst (filter (passes caller d0) S))))
               (google_tokens d)
       \<and> row_keys (snd (available_loop caller today S d)) = row_keys d0
       \<and> share_blacklist (snd (available_loop caller today S d)) = share_blacklist d
       \<and> users (snd (available_loop caller today S d)) = users d
       \<and> share_bans (snd (available_loop caller today S d)) = share_bans d
       \<and> share_usage (snd (available_loop caller today S d)) = share_usage d"
  using assms
proof (induction S arbitrary: d)
  case Nil
  then show ?case
    by (simp add: stale_ids_def reset_set_def)
next
  case (Cons p S)
  obtain token u where p: "p = (token, u)" by (cases p)
  have pass: "passes caller d0 p
      = (\<not> (case caller of None \<Rightarrow> False
             | Some c \<Rightarrow> isUserBlacklisted d (u_id u) (tokenIndexOf d token u) c))"
    using same_keys_passes [OF Cons.prems, of caller p]
    by (simp add: passes_def p split: option.splits)
  show ?case
  proof (cases "passes caller d0 p")
    case False
    then show ?thesis
      using Cons.IH [OF Cons.prems] pass by (simp add: p)
  next
    case True
    let ?d1 = "reset_in_db today token d"
    have k: "row_keys ?d1 = row_keys d0" "share_blacklist ?d1 = share_blacklist d0"
      using Cons.prems by (simp_all add: reset_in_db_frame)
    note ih = Cons.IH [OF k]
    have rows: "map (reset_set today (stale_ids today (map fst (filter (passes caller d0) S))))
                  (google_tokens ?d1)
        = map (reset_set today (stale_ids today (map fst (filter (passes caller d0) (p # S)))))
            (google_tokens d)"
      using True
      by (auto simp: reset_in_db_rows reset_set_compose p stale_ids_def reset_set_def)
    obtain av d2 where al: "available_loop caller today S ?d1 = (av, d2)"
      by (cases "available_loop caller today S ?d1")
    note ih' = ih [unfolded al fst_conv snd_conv]
    have step: "available_loop caller today (p # S) d
        = (if usage_today (fresh_copy today token) < daily_limit (fresh_copy today token)
           then fresh_copy today token # av else av, d2)"
      using True pass al by (simp add: p Let_def)
    have frame: "share_blacklist ?d1 = share_blacklist d" "users ?d1 = users d"
      "share_bans ?d1 = share_bans d" "share_usage ?d1 = share_usage d"
      by (simp_all add: reset_in_db_frame)
    show ?thesis
      unfolding step using True ih' rows frame by (simp add: p)
  qed
qed

lemma shared_rows_member:
  "(r, u) \<in> set (shared_rows d) \<longleftrightarrow>
     r \<in> set (google_tokens d) \<and> u \<in> set (users d) \<and> user_id r = Some (u_id u)
     \<and> is_shared r \<and> enabled r \<and> u_enabled u"
  by (auto simp: shared_rows_def)

lemma shared_rows_cong:
  "google_tokens d' = google_tokens d \<Longrightarrow> users d' = users d \<Longrightarrow> shared_rows d' = shared_rows d"
  by (simp add: shared_rows_def)

lemma random_index:
  assumes "0 \<le> rnd" and "rnd < 1" and "0 < n"
  shows "nat \<lfloor>rnd * real n\<rfloor> < n"
proof -
  have "rnd * real n < real n"
    using assms by simp
  then have "\<lfloor>rnd * real n\<rfloor> < int n"
    by (simp add: floor_less_iff)
  then show ?thesis
    using assms(3) by linarith
qed

lemma isUserBanned_frame:
  "google_tokens (snd (isUserBanned now c d)) = google_tokens d
   \<and> users (snd (isUserBanned now c d)) = users d
   \<and> share_blacklist (snd (isUserBanned now c d)) = share_blacklist d
   \<and> share_usage (snd (isUserBanned now c d)) = share_usage d"
  by (simp add: isUserBanned_def split: option.splits)

lemma banUserFromSharing_frame:
  "google_tokens (snd (banUserFromSharing now c rsn d)) = google_tokens d
   \<and> users (snd (banUserFromSharing now c rsn d)) = users d
   \<and> share_blacklist (snd (banUserFromSharing now c rsn d)) = share_blacklist d
   \<and> share_usage (snd (banUserFromSharing now c rsn d)) = share_usage d"
  by (simp add: banUserFromSharing_def Let_def)

lemma checkAndBanAbuser_frame:
  "google_tokens (snd (checkAndBanAbuser z now c d)) = google_tokens d
   \<and> users (snd (checkAndBanAbuser z now c d)) = users d
   \<and> share_blacklist (snd (checkAndBanAbuser z now c d)) = share_blacklist d
   \<and> share_usage (snd (checkAndBanAbuser z now c d)) = share_usage d"
  using banUserFromSharing_frame [of now c _ d]
  by (simp add: checkAndBanAbuser_def Let_def split: prod.splits) (metis snd_conv)

lemma recordShareUsage_frame:
  "google_tokens (snd (recordShareUsage z now c d)) = google_tokens d
   \<and> users (snd (recordShareUsage z now c d)) = users d
   \<and> share_blacklist (snd (recordShareUsage z now c d)) = share_blacklist d
   \<and> share_bans (snd (recordShareUsage z now c d)) = share_bans d"
  by (simp add: recordShareUsage_def Let_def)

lemma after_selection_frame:
  "google_tokens (case caller of None \<Rightarrow> d
       | Some c \<Rightarrow> snd (checkAndBanAbuser z now c (snd (recordShareUsage z now c d))))
     = google_tokens d
   \<and> users (case caller of None \<Rightarrow> d
       | Some c \<Rightarrow> snd (checkAndBanAbuser z now c (snd (recordShareUsage z now c d))))
     = users d
   \<and> share_blacklist (case caller of None \<Rightarrow> d
       | Some c \<Rightarrow> snd (checkAndBanAbuser z now c (snd (recordShareUsage z now c d))))
     = share_blacklist d"
  by (cases caller) (simp_all add: checkAndBanAbuser_frame recordShareUsage_frame)

text \<open>The state in which the selection loop of \<^verbatim>\<open>getRandomSharedToken\<close> starts.\<close>

lemma ban_gate:
  "\<exists>bs d0. (case truthy callerId of None \<Rightarrow> (Not_banned, d) | Some c \<Rightarrow> isUserBanned now c d)
              = (bs, d0)
     \<and> google_tokens d0 = google_tokens d \<and> users d0 = users d
     \<and> share_blacklist d0 = share_blacklist d"
proof (cases "truthy callerId")
  case None
  then show ?thesis by simp
next
  case (Some c)
  obtain bs d0 where i: "isUserBanned now c d = (bs, d0)"
    by (cases "isUserBanned now c d")
  from isUserBanned_frame [of now c d] show ?thesis
    using Some i by simp
qed

lemma getRandomSharedToken_selected:
  assumes rnd: "0 \<le> rnd" "rnd < 1"
    and g: "getRandomSharedToken z now rnd callerId d = (Shared_token sel, d')"
  shows "\<exists>p\<in>set (shared_rows d).
           passes (truthy callerId) d p
           \<and> usage_today (fresh_copy (toDateString z now) (fst p))
               < daily_limit (fresh_copy (toDateString z now) (fst p))
           \<and> sel = (fresh_copy (toDateString z now) (fst p))
                     \<lparr>usage_today := usage_today (fresh_copy (toDateString z now) (fst p)) + 1\<rparr>"
    and "google_tokens d'
           = map (use_row (row_id sel))
               (map (reset_set (toDateString z now)
                       (stale_ids (toDateString z now)
                          (map fst (filter (passes (truthy callerId) d) (shared_rows d)))))
                  (google_tokens d))"
    and "users d' = users d" and "share_blacklist d' = share_blacklist d"
proof -
  let ?today = "toDateString z now"
  let ?caller = "truthy callerId"
  from ban_gate [where callerId = callerId and d = d and now = now] obtain bs d0 where
    gate: "(case ?caller of None \<Rightarrow> (Not_banned, d) | Some c \<Rightarrow> isUserBanned now c d) = (bs, d0)"
    and fr: "google_tokens d0 = google_tokens d" "users d0 = users d"
      "share_blacklist d0 = share_blacklist d"
    by blast
  have bs: "bs = Not_banned"
    using g gate by (cases bs) (simp_all add: getRandomSharedToken_def)
  have keys: "row_keys d0 = row_keys d" using fr by (simp add: row_keys_def)
  have sr: "shared_rows d0 = shared_rows d" using fr(1,2) by (rule shared_rows_cong)
  have ps: "passes ?caller d0 = passes ?caller d"
    using same_keys_passes [OF keys fr(3)] by (simp add: fun_eq_iff)
  obtain av d1 where al: "available_loop ?caller ?today (shared_rows d0) d0 = (av, d1)"
    by (cases "available_loop ?caller ?today (shared_rows d0) d0")
  have al': "available_loop ?caller ?today (shared_rows d) d0 = (av, d1)"
    using al sr by simp
  note eq = available_loop_eq [where d = d0 and ?d0.0 = d0 and caller = ?caller
      and today = ?today and S = "shared_rows d", OF refl refl, unfolded al' fst_conv snd_conv ps fr]
  have av: "av = filter (\<lambda>t. usage_today t < daily_limit t)
               (map (fresh_copy ?today) (map fst (filter (passes ?caller d) (shared_rows d))))"
    and rows1: "google_tokens d1
           = map (reset_set ?today (stale_ids ?today (map fst (filter (passes ?caller d) (shared_rows d)))))
               (google_tokens d)"
    and fr1: "users d1 = users d" "share_blacklist d1 = share_blacklist d"
    using eq by blast+
  have ne: "av \<noteq> []"
    using g gate bs al by (auto simp: getRandomSharedToken_def Let_def split: if_splits)
  let ?sel0 = "av ! nat \<lfloor>rnd * real (length av)\<rfloor>"
  let ?d2 = "d1\<lparr>google_tokens := map (use_row (row_id ?sel0)) (google_tokens d1)\<rparr>"
  have res: "sel = ?sel0\<lparr>usage_today := usage_today ?sel0 + 1\<rparr>"
    and d': "d' = (case ?caller of None \<Rightarrow> ?d2
       | Some c \<Rightarrow> snd (checkAndBanAbuser z now c (snd (recordShareUsage z now c ?d2))))"
    using g gate bs al ne by (simp_all add: getRandomSharedToken_def Let_def)
  have "nat \<lfloor>rnd * real (length av)\<rfloor> < length av"
    using rnd ne by (intro random_index) simp_all
  then have "?sel0 \<in> set av" by simp
  then obtain p where p: "p \<in> set (shared_rows d)" "passes ?caller d p"
    "?sel0 = fresh_copy ?today (fst p)" "usage_today ?sel0 < daily_limit ?sel0"
    unfolding av by auto
  show "\<exists>p\<in>set (shared_rows d).
           passes ?caller d p
           \<and> usage_today (fresh_copy ?today (fst p)) < daily_limit (fresh_copy ?today (fst p))
           \<and> sel = (fresh_copy ?today (fst p))
                     \<lparr>usage_today := usage_today (fresh_copy ?today (fst p)) + 1\<rparr>"
    using p res by (intro bexI [of _ p]) simp_all
  have id: "row_id sel = row_id ?sel0" using res by simp
  note af = after_selection_frame [where caller = ?caller and d = ?d2 and z = z and now = now]
  show "google_tokens d'
           = map (use_row (row_id sel))
               (map (reset_set ?today (stale_ids ?today (map fst (filter (passes ?caller d) (shared_rows d)))))
                  (google_tokens d))"
    unfolding d' id using af rows1 by simp
  show "users d' = users d" unfolding d' using af fr1 by simp
  show "share_blacklist d' = share_blacklist d" unfolding d' using af fr1 by simp
qed

lemma shared_loop_eq:
  assumes "row_keys d = row_keys d0"
  shows "fst (shared_loop today S d) = map (summary_of today d0) S
       \<and> snd (shared_loop today S d) = snd (available_loop None today S d)"
  using assms
proof (induction S arbitrary: d)
  case Nil
  then show ?case by simp
next
  case (Cons p S)
  obtain token u where p: "p = (token, u)" by (cases p)
  let ?d1 = "reset_in_db today token d"
  have k: "row_keys ?d1 = row_keys d0"
    using Cons.prems by (simp add: reset_in_db_frame)
  have i: "tokenIndexOf ?d1 (fresh_copy today token) u = tokenIndexOf d0 token u"
    using k by (rule same_keys_index) (simp add: fresh_copy_fields)
  obtain xs d2 where sl: "shared_loop today S ?d1 = (xs, d2)"
    by (cases "shared_loop today S ?d1")
  obtain av d3 where al: "available_loop None today S ?d1 = (av, d3)"
    by (cases "available_loop None today S ?d1")
  from Cons.IH [OF k] have ih: "xs = map (summary_of today d0) S" "d2 = d3"
    by (simp_all add: sl al)
  show ?case
    using ih i by (simp add: p sl al Let_def summary_of_def fresh_copy_fields)
qed

lemma getAllSharedTokens_eq:
  "fst (getAllSharedTokens z now d) = map (summary_of (toDateString z now) d) (shared_rows d)
   \<and> google_tokens (snd (getAllSharedTokens z now d))
       = map (reset_set (toDateString z now)
                (stale_ids (toDateString z now) (map fst (shared_rows d))))
           (google_tokens d)
   \<and> users (snd (getAllSharedTokens z now d)) = users d"
proof -
  have p: "filter (passes None d) (shared_rows d) = shared_rows d"
    by (simp add: passes_def)
  from shared_loop_eq [OF refl, of "toDateString z now" "shared_rows d" d]
    available_loop_eq [OF refl refl, of None "toDateString z now" "shared_rows d" d]
  show ?thesis
    by (simp add: getAllSharedTokens_def p)
qed

lemma distinct_row_eq:
  assumes "distinct (map row_id rows)" and "r \<in> set rows" and "r' \<in> set rows"
    and "row_id r = row_id r'"
  shows "r = r'"
  using assms by (meson distinct_map inj_on_eq_iff)

lemma listing:
  assumes dist: "distinct (map row_id (google_tokens d))"
    and c: "c \<in> set (google_tokens d)" "user_id c = Some uid" "is_shared c" "enabled c"
    and owner: "\<exists>u\<in>set (users d). u_id u = uid \<and> u_enabled u"
  shows "(\<exists>x\<in>set (fst (getAllSharedTokens z now d)).
            userId x = uid
            \<and> tokenIndex x = findIndex (\<lambda>i. i = row_id c) (user_token_ids d uid))
       \<and> (\<forall>x\<in>set (fst (getAllSharedTokens z now d)).
            userId x = uid
            \<and> tokenIndex x = findIndex (\<lambda>i. i = row_id c) (user_token_ids d uid)
            \<longrightarrow> remainingToday x
                  = daily_limit c - usage_today (fresh_copy (toDateString z now) c))"
proof -
  let ?today = "toDateString z now"
  let ?idx = "findIndex (\<lambda>i. i = row_id c) (user_token_ids d uid)"
  have sums: "fst (getAllSharedTokens z now d) = map (summary_of ?today d) (shared_rows d)"
    by (simp add: getAllSharedTokens_eq)
  from owner obtain u0 where u0: "u0 \<in> set (users d)" "u_id u0 = uid" "u_enabled u0" by blast
  have m: "(c, u0) \<in> set (shared_rows d)"
    using c u0 by (simp add: shared_rows_member)
  have "userId (summary_of ?today d (c, u0)) = uid
        \<and> tokenIndex (summary_of ?today d (c, u0)) = ?idx"
    using u0 by (simp add: summary_of_def tokenIndexOf_def)
  moreover have "summary_of ?today d (c, u0) \<in> set (fst (getAllSharedTokens z now d))"
    unfolding sums using m by simp
  ultimately have A: "\<exists>x\<in>set (fst (getAllSharedTokens z now d)). userId x = uid \<and> tokenIndex x = ?idx"
    by blast
  have cin: "row_id c \<in> set (user_token_ids d uid)"
    using c by (auto simp: set_user_token_ids)
  have B: "remainingToday x = daily_limit c - usage_today (fresh_copy ?today c)"
    if x: "x \<in> set (fst (getAllSharedTokens z now d))" "userId x = uid" "tokenIndex x = ?idx" for x
  proof -
    from x(1) obtain t u where tu: "(t, u) \<in> set (shared_rows d)" "x = summary_of ?today d (t, u)"
      unfolding sums by auto
    have t: "t \<in> set (google_tokens d)" "user_id t = Some (u_id u)"
      using tu(1) by (simp_all add: shared_rows_member)
    have uu: "u_id u = uid" using x(2) tu(2) by (simp add: summary_of_def)
    have tin: "row_id t \<in> set (user_token_ids d uid)"
      using t uu by (auto simp: set_user_token_ids)
    have fi: "findIndex (\<lambda>i. i = row_id t) (user_token_ids d uid) = ?idx"
      using x(3) tu(2) uu by (simp add: summary_of_def tokenIndexOf_def)
    have "row_id t = row_id c"
      by (rule findIndex_eq_inj [OF tin cin fi])
    then have "t = c"
      by (rule distinct_row_eq [OF dist t(1) c(1)])
    then show ?thesis using tu(2) by (simp add: summary_of_def)
  qed
  show ?thesis using A B by blast
qed

lemma truthy_Some: "B \<noteq> [] \<Longrightarrow> truthy (Some B) = Some B"
  by (simp add: truthy_def)

lemma getRandomSharedToken_none:
  assumes gate: "fst (case truthy callerId of None \<Rightarrow> (Not_banned, d)
                      | Some c \<Rightarrow> isUserBanned now c d) = Not_banned"
    and none: "filter (passes (truthy callerId) d) (shared_rows d) = []"
  shows "fst (getRandomSharedToken z now rnd callerId d) = No_shared_token"
proof -
  let ?today = "toDateString z now"
  let ?caller = "truthy callerId"
  from ban_gate [where callerId = callerId and d = d and now = now] obtain bs d0 where
    g: "(case ?caller of None \<Rightarrow> (Not_banned, d) | Some c \<Rightarrow> isUserBanned now c d) = (bs, d0)"
    and fr: "google_tokens d0 = google_tokens d" "users d0 = users d"
      "share_blacklist d0 = share_blacklist d"
    by blast
  have bs: "bs = Not_banned" using gate g by simp
  have keys: "row_keys d0 = row_keys d" using fr by (simp add: row_keys_def)
  have sr: "shared_rows d0 = shared_rows d" using fr(1,2) by (rule shared_rows_cong)
  have ps: "passes ?caller d0 = passes ?caller d"
    using same_keys_passes [OF keys fr(3)] by (simp add: fun_eq_iff)
  obtain av d1 where al: "available_loop ?caller ?today (shared_rows d) d0 = (av, d1)"
    by (cases "available_loop ?caller ?today (shared_rows d) d0")
  note eq = available_loop_eq [where d = d0 and ?d0.0 = d0 and caller = ?caller
      and today = ?today and S = "shared_rows d", OF refl refl, unfolded al fst_conv snd_conv ps none]
  have "av = []" using eq by simp
  then show ?thesis
    using g bs al by (simp add: getRandomSharedToken_def sr)
qed

text \<open>
  C9. For a borrower \<open>B\<close> (a non-empty id) and any credential \<open>c\<close> whose blacklist, the
  entries stored for its owner and its index among the owner's credentials, contains
  \<open>B\<close>: \<^verbatim>\<open>getRandomSharedToken(B)\<close> never returns \<open>c\<close>, whatever its remaining quota and
  whatever the random draw; and when every shared, enabled credential of an enabled
  owner blacklists \<open>B\<close> (and \<open>B\<close> is not banned), the call returns the no-credential result.
\<close>

theorem blacklist_excludes:
  assumes rnd: "0 \<le> rnd" "rnd < 1" and B: "B \<noteq> []"
  shows "(\<forall>sel d' c owner.
            getRandomSharedToken z now rnd (Some B) d = (Shared_token sel, d')
            \<and> c \<in> set (google_tokens d) \<and> user_id c = Some owner
            \<and> isUserBlacklisted d owner
                 (findIndex (\<lambda>i. i = row_id c) (user_token_ids d owner)) B
          \<longrightarrow> \<not> (row_id sel = row_id c \<and> user_id sel = user_id c))
       \<and> ((\<forall>p\<in>set (shared_rows d).
              isUserBlacklisted d (u_id (snd p)) (tokenIndexOf d (fst p) (snd p)) B)
            \<and> fst (isUserBanned now B d) = Not_banned
          \<longrightarrow> fst (getRandomSharedToken z now rnd (Some B) d) = No_shared_token)"
proof -
  note t = truthy_Some [OF B]
  have A: "\<not> (row_id sel = row_id c \<and> user_id sel = user_id c)"
    if g: "getRandomSharedToken z now rnd (Some B) d = (Shared_token sel, d')"
      and c: "user_id c = Some owner"
        "isUserBlacklisted d owner (findIndex (\<lambda>i. i = row_id c) (user_token_ids d owner)) B"
    for sel d' c owner
  proof
    assume e: "row_id sel = row_id c \<and> user_id sel = user_id c"
    from getRandomSharedToken_selected(1) [OF rnd g] obtain p where
      p: "p \<in> set (shared_rows d)" "passes (Some B) d p"
      and sel: "sel = (fresh_copy (toDateString z now) (fst p))
                     \<lparr>usage_today := usage_today (fresh_copy (toDateString z now) (fst p)) + 1\<rparr>"
      unfolding t by blast
    have ids: "row_id sel = row_id (fst p)" "user_id sel = user_id (fst p)"
      using sel by (simp_all add: fresh_copy_fields)
    have "user_id (fst p) = Some (u_id (snd p))"
      using p(1) shared_rows_member [of "fst p" "snd p" d] by simp
    then have o: "u_id (snd p) = owner" "row_id (fst p) = row_id c"
      using e ids c(1) by simp_all
    have "\<not> isUserBlacklisted d owner (findIndex (\<lambda>i. i = row_id c) (user_token_ids d owner)) B"
      using p(2) o by (simp add: passes_def tokenIndexOf_def)
    then show False using c(2) by simp
  qed
  have C: "fst (getRandomSharedToken z now rnd (Some B) d) = No_shared_token"
    if all: "\<forall>p\<in>set (shared_rows d).
              isUserBlacklisted d (u_id (snd p)) (tokenIndexOf d (fst p) (snd p)) B"
      and nb: "fst (isUserBanned now B d) = Not_banned"
  proof (rule getRandomSharedToken_none)
    show "fst (case truthy (Some B) of None \<Rightarrow> (Not_banned, d)
                      | Some c \<Rightarrow> isUserBanned now c d) = Not_banned"
      using nb by (simp add: t)
    show "filter (passes (truthy (Some B)) d) (shared_rows d) = []"
      using all by (simp add: t filter_empty_conv passes_def)
  qed
  show ?thesis using A C by blast
qed

theorem blacklist_excludes_witness:
  "shared_rows blacklist_db = [(shared_row, owner_row)]
   \<and> isUserBlacklisted blacklist_db ''user_a'' 0 ''user_b''
   \<and> usage_today shared_row < daily_limit shared_row
   \<and> fst (getRandomSharedToken example_tz 1000 0 (Some ''user_b'') blacklist_db) = No_shared_token"
proof -
  have sr: "shared_rows blacklist_db = [(shared_row, owner_row)]"
    by (simp add: shared_rows_def blacklist_db_def share_db_def empty_db_def shared_row_def
        owner_row_def example_row_def)
  have bl: "isUserBlacklisted blacklist_db ''user_a'' 0 ''user_b''"
    by (simp add: isUserBlacklisted_def blacklist_db_def)
  have ix: "tokenIndexOf blacklist_db shared_row owner_row = 0"
    by (simp add: tokenIndexOf_def user_token_ids_def blacklist_db_def share_db_def empty_db_def
        shared_row_def owner_row_def example_row_def)
  have all: "\<forall>p\<in>set (shared_rows blacklist_db).
      isUserBlacklisted blacklist_db (u_id (snd p)) (tokenIndexOf blacklist_db (fst p) (snd p)) ''user_b''"
  proof -
    have uo: "u_id owner_row = ''user_a''" by (simp add: owner_row_def)
    show ?thesis using bl by (simp add: sr ix uo)
  qed
  have nb: "fst (isUserBanned 1000 ''user_b'' blacklist_db) = Not_banned"
    by (simp add: isUserBanned_def blacklist_db_def share_db_def empty_db_def)
  have q: "usage_today shared_row < daily_limit shared_row"
    by (simp add: shared_row_def example_row_def)
  have r: "(0::real) \<le> 0" "(0::real) < 1" "''user_b'' \<noteq> []" by simp_all
  from blacklist_excludes [OF r, of example_tz 1000 blacklist_db] all nb
  have "fst (getRandomSharedToken example_tz 1000 0 (Some ''user_b'') blacklist_db) = No_shared_token"
    by blast
  then show ?thesis using sr bl q by simp
qed

subsection \<open>Sharing settings and the daily borrow counter\<close>

lemma find_distinct:
  assumes "distinct (map f xs)" and "x \<in> set xs"
  shows "find (\<lambda>y. f y = f x) xs = Some x"
  using assms by (induction xs) (auto simp: image_iff)

lemma row_keys_distinct:
  "row_keys d' = row_keys d \<Longrightarrow> map row_id (google_tokens d') = map row_id (google_tokens d)"
proof -
  assume "row_keys d' = row_keys d"
  then have "map fst (row_keys d') = map fst (row_keys d)" by simp
  then show ?thesis by (simp add: row_keys_def comp_def)
qed

lemma map_rows_keys:
  assumes "\<And>r. row_id (g r) = row_id r \<and> user_id (g r) = user_id r"
  shows "row_keys (d\<lparr>google_tokens := map g (google_tokens d)\<rparr>) = row_keys d"
  using assms by (simp add: row_keys_def comp_def)

lemma set_sharing_fields:
  "row_id (set_sharing i sh lmt r) = row_id r \<and> user_id (set_sharing i sh lmt r) = user_id r
   \<and> enabled (set_sharing i sh lmt r) = enabled r
   \<and> usage_today (set_sharing i sh lmt r) = usage_today r
   \<and> last_reset_date (set_sharing i sh lmt r) = last_reset_date r"
  by (simp add: set_sharing_def Let_def split: option.splits)

lemma reset_set_fields:
  "row_id (reset_set today R r) = row_id r \<and> user_id (reset_set today R r) = user_id r
   \<and> enabled (reset_set today R r) = enabled r \<and> is_shared (reset_set today R r) = is_shared r
   \<and> daily_limit (reset_set today R r) = daily_limit r"
  by (simp add: reset_set_def)

lemma use_row_fields:
  "row_id (use_row i r) = row_id r \<and> user_id (use_row i r) = user_id r
   \<and> enabled (use_row i r) = enabled r \<and> is_shared (use_row i r) = is_shared r
   \<and> daily_limit (use_row i r) = daily_limit r
   \<and> last_reset_date (use_row i r) = last_reset_date r"
  by (simp add: use_row_def)

lemma updateTokenSharing_ok:
  assumes dist: "distinct (map row_id (google_tokens d))"
    and c: "c \<in> set (google_tokens d)" "user_id c = Some uid"
    and owner: "\<exists>u\<in>set (users d). u_id u = uid"
  shows "updateTokenSharing uid (findIndex (\<lambda>i. i = row_id c) (user_token_ids d uid)) sh lmt d
         = Inr ((is_shared (set_sharing (row_id c) sh lmt c),
                 daily_limit (set_sharing (row_id c) sh lmt c)),
                d\<lparr>google_tokens := map (set_sharing (row_id c) sh lmt) (google_tokens d)\<rparr>)"
proof -
  let ?ids = "user_token_ids d uid"
  let ?idx = "findIndex (\<lambda>i. i = row_id c) ?ids"
  let ?g = "set_sharing (row_id c) sh lmt"
  let ?d1 = "d\<lparr>google_tokens := map ?g (google_tokens d)\<rparr>"
  have "find (\<lambda>u. u_id u = uid) (users d) \<noteq> None"
    using owner by (auto simp: find_None_iff)
  then obtain user where u: "find (\<lambda>u. u_id u = uid) (users d) = Some user" by blast
  have cin: "\<exists>x\<in>set ?ids. x = row_id c"
    using c by (auto simp: set_user_token_ids)
  from findIndex_found [OF cin]
  have ix: "0 \<le> ?idx" "?idx < int (length ?ids)" "?ids ! nat ?idx = row_id c"
    by simp_all
  have d1: "distinct (map row_id (map ?g (google_tokens d)))"
    using dist by (simp add: comp_def set_sharing_fields)
  have "?g c \<in> set (map ?g (google_tokens d))" using c(1) by simp
  from find_distinct [OF d1 this]
  have f: "find (\<lambda>r. row_id r = row_id c) (google_tokens ?d1) = Some (?g c)"
    by (simp add: set_sharing_fields)
  show ?thesis
    using u ix f by (simp add: updateTokenSharing_def Let_def)
qed

lemma borrow_then_list:
  assumes dist: "distinct (map row_id (google_tokens dx))"
    and c: "cx \<in> set (google_tokens dx)" "user_id cx = Some uid" "is_shared cx" "enabled cx"
    and owner: "\<exists>u\<in>set (users dx). u_id u = uid \<and> u_enabled u"
    and unused: "usage_today cx = 0 \<or> last_reset_date cx \<noteq> toDateString z now2"
    and day: "toDateString z now3 = toDateString z now2"
    and rnd: "0 \<le> rnd" "rnd < 1"
    and g: "getRandomSharedToken z now2 rnd callerId dx = (Shared_token sel, d2)"
    and sel: "row_id sel = row_id cx"
  shows "(\<exists>x\<in>set (fst (getAllSharedTokens z now3 d2)).
            userId x = uid
            \<and> tokenIndex x = findIndex (\<lambda>i. i = row_id cx) (user_token_ids dx uid))
       \<and> (\<forall>x\<in>set (fst (getAllSharedTokens z now3 d2)).
            userId x = uid
            \<and> tokenIndex x = findIndex (\<lambda>i. i = row_id cx) (user_token_ids dx uid)
            \<longrightarrow> remainingToday x = daily_limit cx - 1)"
proof -
  let ?today = "toDateString z now2"
  let ?P = "map fst (filter (passes (truthy callerId) dx) (shared_rows dx))"
  let ?R = "stale_ids ?today ?P"
  let ?c2 = "use_row (row_id cx) (reset_set ?today ?R cx)"
  note s = getRandomSharedToken_selected [OF rnd g]
  from s(1) obtain p where p: "p \<in> set (shared_rows dx)" "passes (truthy callerId) dx p"
    and selp: "sel = (fresh_copy ?today (fst p))
                     \<lparr>usage_today := usage_today (fresh_copy ?today (fst p)) + 1\<rparr>"
    by blast
  have pin: "fst p \<in> set (google_tokens dx)"
    using p(1) shared_rows_member [of "fst p" "snd p" dx] by simp
  have "row_id (fst p) = row_id cx"
    using sel selp by (simp add: fresh_copy_fields)
  then have pc: "fst p = cx"
    by (rule distinct_row_eq [OF dist pin c(1)])
  have cP: "cx \<in> set ?P"
    using p pc by force
  have fresh: "reset_set ?today ?R cx = fresh_copy ?today cx"
  proof (cases "last_reset_date cx = ?today")
    case False
    then have "row_id cx \<in> ?R"
      using cP by (simp add: stale_ids_def)
    then show ?thesis using False by (simp add: reset_set_def fresh_copy_def)
  next
    case True
    have "row_id cx \<notin> ?R"
    proof
      assume "row_id cx \<in> ?R"
      then have "\<exists>t\<in>set ?P. last_reset_date t \<noteq> ?today \<and> row_id t = row_id cx"
        unfolding stale_ids_def by force
      then obtain t where t: "t \<in> set ?P" "last_reset_date t \<noteq> ?today" "row_id t = row_id cx"
        by blast
      from t(1) obtain q where "q \<in> set (shared_rows dx)" "t = fst q" by auto
      then have "t \<in> set (google_tokens dx)"
        using shared_rows_member [of "fst q" "snd q" dx] by simp
      then have "t = cx" using t(3) by (intro distinct_row_eq [OF dist _ c(1)])
      then show False using t(2) True by simp
    qed
    then show ?thesis using True by (simp add: reset_set_def fresh_copy_def)
  qed
  have u0: "usage_today (fresh_copy ?today cx) = 0"
    using unused by (auto simp: fresh_copy_def)
  have rows2: "google_tokens d2 = map (use_row (row_id cx)) (map (reset_set ?today ?R) (google_tokens dx))"
    using s(2) sel by simp
  have k2: "row_keys d2 = row_keys dx"
    by (simp add: row_keys_def rows2 comp_def use_row_fields reset_set_fields)
  have dist2: "distinct (map row_id (google_tokens d2))"
    using dist row_keys_distinct [OF k2] by simp
  have c2in: "?c2 \<in> set (google_tokens d2)"
    unfolding rows2 using c(1) by simp
  have c2f: "user_id ?c2 = Some uid" "is_shared ?c2" "enabled ?c2" "row_id ?c2 = row_id cx"
    "daily_limit ?c2 = daily_limit cx"
    using c by (simp_all add: use_row_fields reset_set_fields)
  have c2u: "usage_today ?c2 = 1" "last_reset_date ?c2 = ?today"
    using u0 by (simp_all add: fresh use_row_def fresh_copy_fields)
  have owner2: "\<exists>u\<in>set (users d2). u_id u = uid \<and> u_enabled u"
    using owner s(3) by simp
  have ids2: "user_token_ids d2 uid = user_token_ids dx uid"
    using k2 by (rule same_keys_ids)
  have fc: "fresh_copy (toDateString z now3) ?c2 = ?c2"
    using c2u(2) day by (simp add: fresh_copy_def)
  note L = listing [OF dist2 c2in c2f(1,2,3) owner2, of z now3,
      unfolded c2f(4,5) ids2 fc c2u(1)]
  show ?thesis
    by (rule L)
qed

text \<open>
  C5 (as amended). Let \<open>c\<close> be an enabled credential of an enabled user, addressed by
  its index among the owner's credentials, whose day-scoped borrow counter is 0 or
  stale (no borrow today). Then \<^verbatim>\<open>updateTokenSharing(c, {isShared: true, dailyLimit: 20})\<close>
  succeeds; a following \<^verbatim>\<open>getAllSharedTokens\<close> reports \<open>c\<close> with remaining 20; and after
  one \<^verbatim>\<open>getRandomSharedToken\<close> call that selects \<open>c\<close> (made directly or after that
  listing, on the same calendar day), \<^verbatim>\<open>getAllSharedTokens\<close> reports \<open>c\<close> with remaining 19.
\<close>

theorem sharing_round_trip:
  assumes dist: "distinct (map row_id (google_tokens d))"
    and c: "c \<in> set (google_tokens d)" "user_id c = Some uid" "enabled c"
    and owner: "\<exists>u\<in>set (users d). u_id u = uid \<and> u_enabled u"
    and unused: "usage_today c = 0 \<or> last_reset_date c \<noteq> toDateString z now1"
    and day: "toDateString z now2 = toDateString z now1" "toDateString z now3 = toDateString z now1"
    and rnd: "0 \<le> rnd" "rnd < 1"
    and idx: "idx = findIndex (\<lambda>i. i = row_id c) (user_token_ids d uid)"
  shows "\<exists>d1. updateTokenSharing uid idx (Some True) (Some 20) d = Inr ((True, 20), d1)
     \<and> (\<exists>x\<in>set (fst (getAllSharedTokens z now1 d1)). userId x = uid \<and> tokenIndex x = idx)
     \<and> (\<forall>x\<in>set (fst (getAllSharedTokens z now1 d1)).
           userId x = uid \<and> tokenIndex x = idx \<longrightarrow> remainingToday x = 20)
     \<and> (\<forall>dx sel d2.
           (dx = d1 \<or> dx = snd (getAllSharedTokens z now1 d1))
           \<and> getRandomSharedToken z now2 rnd callerId dx = (Shared_token sel, d2)
           \<and> row_id sel = row_id c
         \<longrightarrow> (\<exists>x\<in>set (fst (getAllSharedTokens z now3 d2)). userId x = uid \<and> tokenIndex x = idx)
             \<and> (\<forall>x\<in>set (fst (getAllSharedTokens z now3 d2)).
                   userId x = uid \<and> tokenIndex x = idx \<longrightarrow> remainingToday x = 19))"
proof -
  let ?today = "toDateString z now1"
  let ?g = "set_sharing (row_id c) (Some True) (Some 20)"
  define d1 where "d1 = d\<lparr>google_tokens := map ?g (google_tokens d)\<rparr>"
  define c1 where "c1 = ?g c"
  have owner': "\<exists>u\<in>set (users d). u_id u = uid" using owner by blast
  have c1f: "row_id c1 = row_id c" "user_id c1 = Some uid" "enabled c1" "is_shared c1"
    "daily_limit c1 = 20" "usage_today c1 = usage_today c" "last_reset_date c1 = last_reset_date c"
    using c by (simp_all add: c1_def set_sharing_def)
  have upd: "updateTokenSharing uid idx (Some True) (Some 20) d = Inr ((True, 20), d1)"
    using updateTokenSharing_ok [OF dist c(1,2) owner', of "Some True" "Some 20"] c1f(4,5)
    by (simp add: idx d1_def c1_def)
  have k1: "row_keys d1 = row_keys d"
    unfolding d1_def by (rule map_rows_keys) (simp add: set_sharing_fields)
  have dist1: "distinct (map row_id (google_tokens d1))"
    using dist row_keys_distinct [OF k1] by simp
  have c1in: "c1 \<in> set (google_tokens d1)"
    using c(1) by (simp add: d1_def c1_def)
  have owner1: "\<exists>u\<in>set (users d1). u_id u = uid \<and> u_enabled u"
    using owner by (simp add: d1_def)
  have ids1: "user_token_ids d1 uid = user_token_ids d uid"
    using k1 by (rule same_keys_ids)
  have u1: "usage_today (fresh_copy ?today c1) = 0"
    using unused c1f by (auto simp: fresh_copy_def)
  note L1 = listing [OF dist1 c1in c1f(2,4,3) owner1, of z now1,
      unfolded c1f(1,5) ids1 idx [symmetric] u1]
  have A: "\<exists>x\<in>set (fst (getAllSharedTokens z now1 d1)). userId x = uid \<and> tokenIndex x = idx"
    using L1 by blast
  have B: "\<forall>x\<in>set (fst (getAllSharedTokens z now1 d1)).
           userId x = uid \<and> tokenIndex x = idx \<longrightarrow> remainingToday x = 20"
    using L1 by simp
  have unused2: "usage_today c1 = 0 \<or> last_reset_date c1 \<noteq> toDateString z now2"
    using unused c1f day by simp
  have day3: "toDateString z now3 = toDateString z now2" using day by simp
  \<comment> \<open>the state after a listing\<close>
  define R where "R = stale_ids ?today (map fst (shared_rows d1))"
  define dl where "dl = snd (getAllSharedTokens z now1 d1)"
  define cl where "cl = reset_set ?today R c1"
  have rowsl: "google_tokens dl = map (reset_set ?today R) (google_tokens d1)"
    and usersl: "users dl = users d1"
    by (simp_all add: dl_def R_def getAllSharedTokens_eq)
  have kl: "row_keys dl = row_keys d1"
    by (simp add: row_keys_def rowsl comp_def reset_set_fields)
  have distl: "distinct (map row_id (google_tokens dl))"
    using dist1 row_keys_distinct [OF kl] by simp
  have clin: "cl \<in> set (google_tokens dl)"
    using c1in by (simp add: rowsl cl_def)
  have clf: "row_id cl = row_id c" "user_id cl = Some uid" "enabled cl" "is_shared cl"
    "daily_limit cl = 20"
    using c1f by (simp_all add: cl_def reset_set_fields)
  have unusedl: "usage_today cl = 0 \<or> last_reset_date cl \<noteq> toDateString z now2"
    using unused2 by (auto simp: cl_def reset_set_def)
  have ownerl: "\<exists>u\<in>set (users dl). u_id u = uid \<and> u_enabled u"
    using owner1 usersl by simp
  have idsl: "user_token_ids dl uid = user_token_ids d uid"
    using same_keys_ids [OF kl, of uid] ids1 by simp
  have C: "(\<exists>x\<in>set (fst (getAllSharedTokens z now3 d2)). userId x = uid \<and> tokenIndex x = idx)
             \<and> (\<forall>x\<in>set (fst (getAllSharedTokens z now3 d2)).
                   userId x = uid \<and> tokenIndex x = idx \<longrightarrow> remainingToday x = 19)"
    if dx: "dx = d1 \<or> dx = dl"
      and g: "getRandomSharedToken z now2 rnd callerId dx = (Shared_token sel, d2)"
      and sel: "row_id sel = row_id c"
    for dx sel d2
    using dx
  proof
    assume e: "dx = d1"
    have sel1: "row_id sel = row_id c1" using sel c1f by simp
    note L = borrow_then_list [OF dist1 c1in c1f(2,4,3) owner1 unused2 day3 rnd g [unfolded e] sel1,
        unfolded c1f(1,5) ids1 idx [symmetric]]
    show ?thesis using L by simp
  next
    assume e: "dx = dl"
    have sell: "row_id sel = row_id cl" using sel clf by simp
    note L = borrow_then_list [OF distl clin clf(2,4,3) ownerl unusedl day3 rnd g [unfolded e] sell,
        unfolded clf(1,5) idsl idx [symmetric]]
    show ?thesis using L by simp
  qed
  show ?thesis
    using upd A B C unfolding dl_def by blast
qed


theorem sharing_round_trip_witness:
  "updateTokenSharing ''user_a'' 0 (Some True) (Some 20) unshared_db = Inr ((True, 20), share_db)
   \<and> (\<exists>x\<in>set (fst (getAllSharedTokens example_tz 1000 share_db)).
         userId x = ''user_a'' \<and> tokenIndex x = 0 \<and> remainingToday x = 20)
   \<and> (\<exists>sel d2. getRandomSharedToken example_tz 1000 0 (Some ''user_b'') share_db
                   = (Shared_token sel, d2)
         \<and> row_id sel = 7
         \<and> (\<exists>x\<in>set (fst (getAllSharedTokens example_tz 1000 d2)).
               userId x = ''user_a'' \<and> tokenIndex x = 0 \<and> remainingToday x = 19))"
proof -
  let ?c = "shared_row\<lparr>is_shared := False, daily_limit := 100\<rparr>"
  have rows: "google_tokens unshared_db = [?c]" "users unshared_db = [owner_row]"
    by (simp_all add: unshared_db_def)
  have dist: "distinct (map row_id (google_tokens unshared_db))"
    by (simp add: rows)
  have c: "?c \<in> set (google_tokens unshared_db)" "user_id ?c = Some ''user_a''" "enabled ?c"
    by (simp_all add: rows shared_row_def example_row_def)
  have owner: "\<exists>u\<in>set (users unshared_db). u_id u = ''user_a'' \<and> u_enabled u"
    by (simp add: rows owner_row_def)
  have unused: "usage_today ?c = 0 \<or> last_reset_date ?c \<noteq> toDateString example_tz 1000"
    by (simp add: shared_row_def example_row_def)
  have rnd: "(0::real) \<le> 0" "(0::real) < 1" by simp_all
  have idx: "0 = findIndex (\<lambda>i. i = row_id ?c) (user_token_ids unshared_db ''user_a'')"
    by (simp add: user_token_ids_def rows shared_row_def example_row_def)
  have upd: "updateTokenSharing ''user_a'' 0 (Some True) (Some 20) unshared_db
      = Inr ((True, 20), share_db)"
    by (simp add: updateTokenSharing_def user_token_ids_def unshared_db_def share_db_def
        empty_db_def shared_row_def owner_row_def example_row_def set_sharing_def Let_def)
  have sel: "fst (getRandomSharedToken example_tz 1000 0 (Some ''user_b'') share_db)
      = Shared_token (shared_row\<lparr>usage_today := 1\<rparr>)"
    by (simp add: getRandomSharedToken_def truthy_def isUserBanned_def share_db_def empty_db_def
        shared_rows_def shared_row_def owner_row_def example_row_def example_tz_def
        isUserBlacklisted_def tokenIndexOf_def user_token_ids_def reset_in_db_def
        fresh_copy_def Let_def)
  define d2 where "d2 = snd (getRandomSharedToken example_tz 1000 0 (Some ''user_b'') share_db)"
  have g: "getRandomSharedToken example_tz 1000 0 (Some ''user_b'') share_db
      = (Shared_token (shared_row\<lparr>usage_today := 1\<rparr>), d2)"
    using sel by (simp add: d2_def prod_eq_iff)
  have id: "row_id (shared_row\<lparr>usage_today := 1\<rparr>) = row_id ?c" "row_id ?c = 7"
    by (simp_all add: shared_row_def)
  from sharing_round_trip [OF dist c owner unused refl refl rnd idx, of "Some ''user_b''"]
  obtain d1 where d1: "updateTokenSharing ''user_a'' 0 (Some True) (Some 20) unshared_db
        = Inr ((True, 20), d1)"
    and A: "\<exists>x\<in>set (fst (getAllSharedTokens example_tz 1000 d1)).
              userId x = ''user_a'' \<and> tokenIndex x = 0"
    and B: "\<forall>x\<in>set (fst (getAllSharedTokens example_tz 1000 d1)).
           userId x = ''user_a'' \<and> tokenIndex x = 0 \<longrightarrow> remainingToday x = 20"
    and C: "\<And>dx sel d2.
           (dx = d1 \<or> dx = snd (getAllSharedTokens example_tz 1000 d1))
           \<and> getRandomSharedToken example_tz 1000 0 (Some ''user_b'') dx = (Shared_token sel, d2)
           \<and> row_id sel = row_id ?c
         \<Longrightarrow> (\<exists>x\<in>set (fst (getAllSharedTokens example_tz 1000 d2)).
                  userId x = ''user_a'' \<and> tokenIndex x = 0)
             \<and> (\<forall>x\<in>set (fst (getAllSharedTokens example_tz 1000 d2)).
                   userId x = ''user_a'' \<and> tokenIndex x = 0 \<longrightarrow> remainingToday x = 19)"
    by blast
  have e: "d1 = share_db" using d1 upd by simp
  have 1: "\<exists>x\<in>set (fst (getAllSharedTokens example_tz 1000 share_db)).
         userId x = ''user_a'' \<and> tokenIndex x = 0 \<and> remainingToday x = 20"
    using A B unfolding e by blast
  have 2: "\<exists>x\<in>set (fst (getAllSharedTokens example_tz 1000 d2)).
               userId x = ''user_a'' \<and> tokenIndex x = 0 \<and> remainingToday x = 19"
    using C [of share_db "shared_row\<lparr>usage_today := 1\<rparr>" d2] g id(1) e by blast
  show ?thesis
    using upd 1 2 g id by (intro conjI exI [of _ "shared_row\<lparr>usage_today := 1\<rparr>"] exI [of _ d2]) simp_all
qed

text \<open>
  C5 as stated fails for a disabled credential of an enabled user: the settings are
  stored, but the credential is not listed at all.
\<close>

theorem sharing_not_listed_when_disabled:
  "u_enabled owner_row
   \<and> google_tokens disabled_db = [shared_row\<lparr>enabled := False, is_shared := False\<rparr>]
   \<and> user_id shared_row = Some (u_id owner_row)
   \<and> updateTokenSharing ''user_a'' 0 (Some True) (Some 20) disabled_db
       = Inr ((True, 20), disabled_shared_db)
   \<and> fst (getAllSharedTokens example_tz 1000 disabled_shared_db) = []"
  by (simp add: updateTokenSharing_def user_token_ids_def disabled_db_def disabled_shared_db_def
      empty_db_def shared_row_def owner_row_def example_row_def set_sharing_def Let_def
      getAllSharedTokens_def shared_rows_def)

end
